theory Spec2Isabelle
  imports Complex_Main "HOL-Library.Sublist"
begin

section \<open>JavaScript strings\<close>

text \<open>
  A JavaScript string is a sequence of UTF-16 code units. A code unit is modelled as a
  natural number; no operation of the program computes with code units, they are only
  compared, so no wrap-around arises. String literals of the source are written with
  \<open>js\<close>.
\<close>

type_synonym codeunit = nat
type_synonym jsstring = "codeunit list"

definition js :: "string \<Rightarrow> jsstring" where
  "js s = map of_char s"

text \<open>
  The characters matched by \<open>\s\<close> in a regular expression and removed by
  \<open>String.prototype.trim\<close>: the WhiteSpace and LineTerminator productions of ECMAScript.
\<close>

definition is_js_space :: "codeunit \<Rightarrow> bool" where
  "is_js_space c = (c = 9 \<or> c = 10 \<or> c = 11 \<or> c = 12 \<or> c = 13 \<or> c = 32 \<or> c = 160
     \<or> c = 5760 \<or> (8192 \<le> c \<and> c \<le> 8202) \<or> c = 8232 \<or> c = 8233 \<or> c = 8239
     \<or> c = 8287 \<or> c = 12288 \<or> c = 65279)"

definition trim :: "jsstring \<Rightarrow> jsstring" where
  "trim s = rev (dropWhile is_js_space (rev (dropWhile is_js_space s)))"

text \<open>\<open>indexOf\<close> and \<open>lastIndexOf\<close> of a single character; \<open>-1\<close> when it is absent.\<close>

fun indexOf :: "codeunit \<Rightarrow> jsstring \<Rightarrow> int" where
  "indexOf c [] = -1"
| "indexOf c (x # xs) =
     (if x = c then 0 else (let i = indexOf c xs in if i = -1 then -1 else i + 1))"

definition lastIndexOf :: "codeunit \<Rightarrow> jsstring \<Rightarrow> int" where
  "lastIndexOf c s =
     (let i = indexOf c (rev s) in if i = -1 then -1 else int (length s) - 1 - i)"

text \<open>
  \<open>substring(start, end)\<close>: both indices are clamped to the string and swapped when
  \<open>start\<close> exceeds \<open>end\<close>.
\<close>

definition substring :: "int \<Rightarrow> int \<Rightarrow> jsstring \<Rightarrow> jsstring" where
  "substring a b s =
     (let n = int (length s);
          a' = min (max a 0) n;
          b' = min (max b 0) n;
          lo = min a' b';
          hi = max a' b'
      in take (nat (hi - lo)) (drop (nat lo) s))"

section \<open>JSON.parse\<close>

text \<open>
  The value \<open>JSON.parse\<close> builds. The program only asks for the \<open>typeof\<close> of a
  property and reads strings and booleans, so a number keeps its lexeme and is never
  converted to floating point. The members of an object are kept in source order;
  a property read finds the last member of that name, as later duplicates overwrite
  earlier ones.
\<close>

datatype json =
    JNull
  | JBool bool
  | JNumber jsstring
  | JString jsstring
  | JArray "json list"
  | JObject "(jsstring \<times> json) list"

datatype parse_error = SyntaxErr | OutOfFuel

text \<open>JSON white space is space, tab, line feed and carriage return only.\<close>

definition is_json_ws :: "codeunit \<Rightarrow> bool" where
  "is_json_ws c = (c = 32 \<or> c = 9 \<or> c = 10 \<or> c = 13)"

definition skip_ws :: "jsstring \<Rightarrow> jsstring" where
  "skip_ws s = dropWhile is_json_ws s"

definition is_digit :: "codeunit \<Rightarrow> bool" where
  "is_digit c = (48 \<le> c \<and> c \<le> 57)"

definition hex_value :: "codeunit \<Rightarrow> nat option" where
  "hex_value c =
     (if 48 \<le> c \<and> c \<le> 57 then Some (c - 48)
      else if 65 \<le> c \<and> c \<le> 70 then Some (c - 55)
      else if 97 \<le> c \<and> c \<le> 102 then Some (c - 87)
      else None)"

text \<open>The character a two-character escape stands for: \<open>\" \\ \/ \b \f \n \r \t\<close>.\<close>

definition unescape :: "codeunit \<Rightarrow> codeunit option" where
  "unescape e =
     (if e = 34 then Some 34
      else if e = 92 then Some 92
      else if e = 47 then Some 47
      else if e = 98 then Some 8
      else if e = 102 then Some 12
      else if e = 110 then Some 10
      else if e = 114 then Some 13
      else if e = 116 then Some 9
      else None)"

text \<open>
  The body of a string literal, after its opening quote: the decoded string and the text
  after the closing quote. A control character, an unknown escape, a short \<open>\u\<close> escape
  or a missing closing quote is a syntax error (\<open>None\<close>).
\<close>

fun parse_string_body :: "jsstring \<Rightarrow> (jsstring \<times> jsstring) option" where
  "parse_string_body [] = None"
| "parse_string_body (c # cs) =
     (if c = 34 then Some ([], cs)
      else if c = 92 then
        (case cs of
           [] \<Rightarrow> None
         | e # r \<Rightarrow>
             if e = 117 then
               (case r of
                  h1 # h2 # h3 # h4 # r' \<Rightarrow>
                    (case (hex_value h1, hex_value h2, hex_value h3, hex_value h4) of
                       (Some a, Some b, Some c', Some d) \<Rightarrow>
                         (case parse_string_body r' of
                            None \<Rightarrow> None
                          | Some (str, rest) \<Rightarrow>
                              Some ((a * 4096 + b * 256 + c' * 16 + d) # str, rest))
                     | _ \<Rightarrow> None)
                | _ \<Rightarrow> None)
             else
               (case unescape e of
                  None \<Rightarrow> None
                | Some u \<Rightarrow>
                    (case parse_string_body r of
                       None \<Rightarrow> None
                     | Some (str, rest) \<Rightarrow> Some (u # str, rest))))
      else if c < 32 then None
      else
        (case parse_string_body cs of
           None \<Rightarrow> None
         | Some (str, rest) \<Rightarrow> Some (c # str, rest)))"

text \<open>
  A number: an optional minus, an integer part without a leading zero, an optional
  fraction and an optional exponent. The result is the lexeme and the remaining text.
\<close>

definition parse_digits :: "jsstring \<Rightarrow> (jsstring \<times> jsstring) option" where
  "parse_digits s =
     (let ds = takeWhile is_digit s in
      if ds = [] then None else Some (ds, dropWhile is_digit s))"

definition parse_int_part :: "jsstring \<Rightarrow> (jsstring \<times> jsstring) option" where
  "parse_int_part s =
     (case s of
        [] \<Rightarrow> None
      | c # cs \<Rightarrow>
          if c = 48 then Some ([48], cs)
          else if is_digit c then Some (takeWhile is_digit s, dropWhile is_digit s)
          else None)"

definition parse_fraction :: "jsstring \<Rightarrow> (jsstring \<times> jsstring) option" where
  "parse_fraction s =
     (case s of
        c # cs \<Rightarrow>
          if c = 46 then
            (case parse_digits cs of
               None \<Rightarrow> None
             | Some (ds, rest) \<Rightarrow> Some (46 # ds, rest))
          else Some ([], s)
      | [] \<Rightarrow> Some ([], s))"

definition parse_exponent :: "jsstring \<Rightarrow> (jsstring \<times> jsstring) option" where
  "parse_exponent s =
     (case s of
        c # cs \<Rightarrow>
          if c = 101 \<or> c = 69 then
            (case cs of
               g # cs' \<Rightarrow>
                 if g = 43 \<or> g = 45 then
                   (case parse_digits cs' of
                      None \<Rightarrow> None
                    | Some (ds, rest) \<Rightarrow> Some (c # g # ds, rest))
                 else
                   (case parse_digits cs of
                      None \<Rightarrow> None
                    | Some (ds, rest) \<Rightarrow> Some (c # ds, rest))
             | [] \<Rightarrow> None)
          else Some ([], s)
      | [] \<Rightarrow> Some ([], s))"

definition parse_number :: "jsstring \<Rightarrow> (jsstring \<times> jsstring) option" where
  "parse_number s =
     (let (sign, s1) = (case s of c # cs \<Rightarrow> if c = 45 then ([45], cs) else ([], s)
                                 | [] \<Rightarrow> ([], s)) in
      case parse_int_part s1 of
        None \<Rightarrow> None
      | Some (ip, s2) \<Rightarrow>
          (case parse_fraction s2 of
             None \<Rightarrow> None
           | Some (fp, s3) \<Rightarrow>
               (case parse_exponent s3 of
                  None \<Rightarrow> None
                | Some (ep, s4) \<Rightarrow> Some (sign @ ip @ fp @ ep, s4))))"

text \<open>
  The recursive-descent parser. Its recursion follows the text left behind by an inner
  call, so it is written with fuel: every call of one of the three functions spends one
  unit. \<open>JSON_parse\<close> supplies enough fuel for the whole text (lemma
  \<open>JSON_parse_never_out_of_fuel\<close>).

  \<open>parse_elements\<close> reads \<open>ws value ws\<close> and then a comma and further elements or the
  closing bracket; \<open>parse_members\<close> reads \<open>ws string ws : ws value ws\<close> and then a comma
  and further members or the closing brace.
\<close>

fun parse_value :: "nat \<Rightarrow> jsstring \<Rightarrow> parse_error + (json \<times> jsstring)"
  and parse_elements :: "nat \<Rightarrow> jsstring \<Rightarrow> parse_error + (json list \<times> jsstring)"
  and parse_members :: "nat \<Rightarrow> jsstring \<Rightarrow> parse_error + ((jsstring \<times> json) list \<times> jsstring)"
where
  "parse_value 0 s = Inl OutOfFuel"
| "parse_value (Suc n) s =
     (case s of
        [] \<Rightarrow> Inl SyntaxErr
      | c # cs \<Rightarrow>
          if c = 123 then
            (case skip_ws cs of
               [] \<Rightarrow> Inl SyntaxErr
             | d # ds \<Rightarrow>
                 if d = 125 then Inr (JObject [], ds)
                 else (case parse_members n (d # ds) of
                         Inl e \<Rightarrow> Inl e
                       | Inr (ms, rest) \<Rightarrow> Inr (JObject ms, rest)))
          else if c = 91 then
            (case skip_ws cs of
               [] \<Rightarrow> Inl SyntaxErr
             | d # ds \<Rightarrow>
                 if d = 93 then Inr (JArray [], ds)
                 else (case parse_elements n (d # ds) of
                         Inl e \<Rightarrow> Inl e
                       | Inr (vs, rest) \<Rightarrow> Inr (JArray vs, rest)))
          else if c = 34 then
            (case parse_string_body cs of
               None \<Rightarrow> Inl SyntaxErr
             | Some (str, rest) \<Rightarrow> Inr (JString str, rest))
          else if prefix (js ''true'') s then Inr (JBool True, drop 4 s)
          else if prefix (js ''false'') s then Inr (JBool False, drop 5 s)
          else if prefix (js ''null'') s then Inr (JNull, drop 4 s)
          else
            (case parse_number s of
               None \<Rightarrow> Inl SyntaxErr
             | Some (lexeme, rest) \<Rightarrow> Inr (JNumber lexeme, rest)))"
| "parse_elements 0 s = Inl OutOfFuel"
| "parse_elements (Suc n) s =
     (case parse_value n (skip_ws s) of
        Inl e \<Rightarrow> Inl e
      | Inr (v, rest) \<Rightarrow>
          (case skip_ws rest of
             [] \<Rightarrow> Inl SyntaxErr
           | d # ds \<Rightarrow>
               if d = 44 then
                 (case parse_elements n ds of
                    Inl e \<Rightarrow> Inl e
                  | Inr (vs, rest') \<Rightarrow> Inr (v # vs, rest'))
               else if d = 93 then Inr ([v], ds)
               else Inl SyntaxErr))"
| "parse_members 0 s = Inl OutOfFuel"
| "parse_members (Suc n) s =
     (case skip_ws s of
        [] \<Rightarrow> Inl SyntaxErr
      | q # qs \<Rightarrow>
          if q \<noteq> 34 then Inl SyntaxErr
          else
            (case parse_string_body qs of
               None \<Rightarrow> Inl SyntaxErr
             | Some (key, r1) \<Rightarrow>
                 (case skip_ws r1 of
                    [] \<Rightarrow> Inl SyntaxErr
                  | k # r2 \<Rightarrow>
                      if k \<noteq> 58 then Inl SyntaxErr
                      else
                        (case parse_value n (skip_ws r2) of
                           Inl e \<Rightarrow> Inl e
                         | Inr (v, r3) \<Rightarrow>
                             (case skip_ws r3 of
                                [] \<Rightarrow> Inl SyntaxErr
                              | d # ds \<Rightarrow>
                                  if d = 44 then
                                    (case parse_members n ds of
                                       Inl e \<Rightarrow> Inl e
                                     | Inr (ms, rest') \<Rightarrow> Inr ((key, v) # ms, rest'))
                                  else if d = 125 then Inr ([(key, v)], ds)
                                  else Inl SyntaxErr)))))"

text \<open>
  \<open>JSON.parse(text)\<close>: one value between optional white space, and nothing after it.
\<close>

definition JSON_parse :: "jsstring \<Rightarrow> parse_error + json" where
  "JSON_parse s =
     (case parse_value (2 * length s + 2) (skip_ws s) of
        Inl e \<Rightarrow> Inl e
      | Inr (v, rest) \<Rightarrow> if skip_ws rest = [] then Inr v else Inl SyntaxErr)"

section \<open>The response interpreter\<close>

text \<open>
  The verdict the interpreter returns (\<open>AnalysisResult\<close> in the source).
\<close>

record AnalysisResult =
  passed :: bool
  reason :: jsstring

text \<open>
  What can be thrown inside the interpreter: the \<open>Error\<close> it throws itself, with its
  message; the \<open>SyntaxError\<close> of \<open>JSON.parse\<close>, which carries the text that failed;
  a \<open>TypeError\<close> for a property read on \<open>null\<close>. The message of an error raised by
  the JavaScript engine is chosen by the engine, so the interpreter takes the engine's
  wording as a parameter.
\<close>

datatype thrown = Error jsstring | SyntaxError jsstring | TypeError

type_synonym engine = "thrown \<Rightarrow> jsstring"

fun message_of :: "engine \<Rightarrow> thrown \<Rightarrow> jsstring" where
  "message_of eng (Error m) = m"
| "message_of eng e = eng e"

subsection \<open>Step 1: fences and surrounding white space\<close>

text \<open>
  \<open>replace(/```json\n?/g, '')\<close>: every occurrence of the opening fence, with the line
  feed after it when there is one, is removed, scanning from the left.
\<close>

definition fence_open :: jsstring where
  "fence_open = js ''```json''"

definition skip_optional_newline :: "jsstring \<Rightarrow> jsstring" where
  "skip_optional_newline s = (case s of [] \<Rightarrow> [] | c # cs \<Rightarrow> if c = 10 then cs else s)"

lemma length_skip_optional_newline: "length (skip_optional_newline s) \<le> length s"
  by (simp add: skip_optional_newline_def split: list.splits)

lemma length_fence_open: "length fence_open = 7"
  by (simp add: fence_open_def js_def)

function remove_fence_open :: "jsstring \<Rightarrow> jsstring" where
  "remove_fence_open [] = []"
| "remove_fence_open (c # cs) =
     (if prefix fence_open (c # cs)
      then remove_fence_open (skip_optional_newline (drop (length fence_open) (c # cs)))
      else c # remove_fence_open cs)"
  by pat_completeness auto
termination
proof (relation "measure length")
  show "wf (measure length)" by simp
next
  fix c :: codeunit and cs :: jsstring
  have "length (skip_optional_newline (drop (length fence_open) (c # cs)))
          \<le> length (drop (length fence_open) (c # cs))"
    by (rule length_skip_optional_newline)
  also have "\<dots> < length (c # cs)"
    by (simp add: length_fence_open)
  finally show "(skip_optional_newline (drop (length fence_open) (c # cs)), c # cs)
                  \<in> measure length"
    by simp
next
  fix c :: codeunit and cs :: jsstring
  show "(cs, c # cs) \<in> measure length" by simp
qed

text \<open>
  \<open>replace(/```$/g, '')\<close>: without the multiline flag \<open>$\<close> is the end of the text, so
  only a closing fence that ends the text is removed.
\<close>

definition fence_close :: jsstring where
  "fence_close = js ''```''"

definition remove_fence_close :: "jsstring \<Rightarrow> jsstring" where
  "remove_fence_close s =
     (if suffix fence_close s then take (length s - length fence_close) s else s)"

subsection \<open>Step 3: line feeds and carriage returns become spaces\<close>

definition flatten_newlines :: "jsstring \<Rightarrow> jsstring" where
  "flatten_newlines s = map (\<lambda>c. if c = 13 then 32 else c) (map (\<lambda>c. if c = 10 then 32 else c) s)"

subsection \<open>Step 4: the missing comma\<close>

text \<open>
  \<open>replace(/(?<="passed":\s*(?:true|false))(\s*)"reason":/g, ',$1"reason":')\<close>.

  The look-behind holds at a position when the text before it ends with \<open>"passed":\<close>,
  white space and \<open>true\<close> or \<open>false\<close>; it is tested on the reversed text before the
  position. The pattern proper holds when the text from the position on is white space
  followed by \<open>"reason":\<close>.
\<close>

definition passed_key :: jsstring where
  "passed_key = js ''\"passed\":''"

definition reason_key :: jsstring where
  "reason_key = js ''\"reason\":''"

definition lookbehind_passed :: "jsstring \<Rightarrow> bool" where
  "lookbehind_passed behind =
     ((prefix (rev (js ''true'')) behind
         \<and> prefix (rev passed_key) (dropWhile is_js_space (drop 4 behind)))
      \<or> (prefix (rev (js ''false'')) behind
         \<and> prefix (rev passed_key) (dropWhile is_js_space (drop 5 behind))))"

definition matches_reason :: "jsstring \<Rightarrow> bool" where
  "matches_reason s = prefix reason_key (dropWhile is_js_space s)"

text \<open>
  The global replacement scans from the left. \<open>behind\<close> is the reversed text already
  passed, as the look-behind reads the original text. At a match the replacement
  \<open>,$1"reason":\<close> is written and the scan goes on after the match.
\<close>

function insert_missing_comma :: "jsstring \<Rightarrow> jsstring \<Rightarrow> jsstring" where
  "insert_missing_comma behind [] = []"
| "insert_missing_comma behind (c # cs) =
     (if lookbehind_passed behind \<and> matches_reason (c # cs)
      then (let m = takeWhile is_js_space (c # cs) @ reason_key in
            44 # m @ insert_missing_comma (rev m @ behind) (drop (length m) (c # cs)))
      else c # insert_missing_comma (c # behind) cs)"
  by pat_completeness auto
termination
  by (relation "measure (\<lambda>(behind, s). length s)")
     (auto simp: reason_key_def js_def)

text \<open>
  The repair in the words of the specification: a comma is put at every position where
  \<open>"passed":\<close> and a boolean come immediately before and \<open>"reason":\<close>, after optional
  white space, comes next; nothing else is changed. Theorem
  \<open>insert_missing_comma_eq\<close> shows that the replacement above computes this.
\<close>

fun comma_at_each_site :: "jsstring \<Rightarrow> jsstring \<Rightarrow> jsstring" where
  "comma_at_each_site behind [] = []"
| "comma_at_each_site behind (c # cs) =
     (if lookbehind_passed behind \<and> matches_reason (c # cs) then [44] else [])
       @ c # comma_at_each_site (c # behind) cs"


subsection \<open>Steps 1 to 6\<close>

text \<open>
  \<open>strip_fences\<close> is step 1. \<open>clean_response\<close> is the text handed to \<open>JSON.parse\<close>, or
  the error thrown when the braces are missing.
\<close>

definition delimiter_message :: jsstring where
  "delimiter_message = js ''Could not find valid JSON object delimiters {} in response.''"

definition strip_fences :: "jsstring \<Rightarrow> jsstring" where
  "strip_fences responseText = trim (remove_fence_close (remove_fence_open responseText))"

definition clean_response :: "jsstring \<Rightarrow> thrown + jsstring" where
  "clean_response responseText =
     (let jsonString = strip_fences responseText;
          firstBrace = indexOf 123 jsonString;
          lastBrace = lastIndexOf 125 jsonString
      in if firstBrace = -1 \<or> lastBrace = -1 \<or> lastBrace < firstBrace
         then Inl (Error delimiter_message)
         else Inr (insert_missing_comma []
                     (flatten_newlines (substring firstBrace (lastBrace + 1) jsonString))))"

text \<open>
  A property read \<open>parsed.passed\<close>: the value of the last member of that name of an
  object, \<open>undefined\<close> (\<open>None\<close>) when the value has no such property, and a
  \<open>TypeError\<close> on \<open>null\<close>.
\<close>

fun get_property :: "json \<Rightarrow> jsstring \<Rightarrow> thrown + json option" where
  "get_property JNull k = Inl TypeError"
| "get_property (JObject ms) k = Inr (map_of (rev ms) k)"
| "get_property v k = Inr None"

text \<open>
  The test of step 6: \<open>typeof parsed.passed === 'boolean' && typeof parsed.reason === 'string'\<close>.
\<close>

definition has_verdict_shape :: "json \<Rightarrow> bool" where
  "has_verdict_shape parsed =
     (case get_property parsed (js ''passed'') of
        Inr (Some (JBool b)) \<Rightarrow>
          (case get_property parsed (js ''reason'') of
             Inr (Some (JString str)) \<Rightarrow> True
           | _ \<Rightarrow> False)
      | _ \<Rightarrow> False)"

definition lacked_fields_prefix :: jsstring where
  "lacked_fields_prefix = js ''AI response was valid JSON but lacked expected fields: ''"

definition ellipsis :: jsstring where
  "ellipsis = js ''...''"

text \<open>The body of the \<open>try\<close> block.\<close>

definition interpret_try :: "jsstring \<Rightarrow> thrown + AnalysisResult" where
  "interpret_try responseText =
     (case clean_response responseText of
        Inl e \<Rightarrow> Inl e
      | Inr jsonString \<Rightarrow>
          (case JSON_parse jsonString of
             Inl e \<Rightarrow> Inl (SyntaxError jsonString)
           | Inr parsed \<Rightarrow>
               (case get_property parsed (js ''passed'') of
                  Inl e \<Rightarrow> Inl e
                | Inr p \<Rightarrow>
                    (case p of
                       Some (JBool b) \<Rightarrow>
                         (case get_property parsed (js ''reason'') of
                            Inl e \<Rightarrow> Inl e
                          | Inr r \<Rightarrow>
                              (case r of
                                 Some (JString str) \<Rightarrow> Inr \<lparr>passed = b, reason = str\<rparr>
                               | _ \<Rightarrow>
                                   Inr \<lparr>passed = False,
                                        reason = lacked_fields_prefix
                                          @ substring 0 200 responseText @ ellipsis\<rparr>))
                     | _ \<Rightarrow>
                         Inr \<lparr>passed = False,
                              reason = lacked_fields_prefix
                                @ substring 0 200 responseText @ ellipsis\<rparr>))))"

text \<open>The \<open>catch\<close> block.\<close>

definition interpret_catch :: "engine \<Rightarrow> jsstring \<Rightarrow> thrown \<Rightarrow> AnalysisResult" where
  "interpret_catch eng responseText e =
     \<lparr>passed = False,
      reason = js ''AI response could not be parsed as valid JSON: '' @ message_of eng e
        @ js '' (Original: '' @ substring 0 100 responseText @ js ''...)''\<rparr>"

definition interpretAIJsonResponse :: "engine \<Rightarrow> jsstring \<Rightarrow> AnalysisResult" where
  "interpretAIJsonResponse eng responseText =
     (case interpret_try responseText of
        Inr v \<Rightarrow> v
      | Inl e \<Rightarrow> interpret_catch eng responseText e)"

text \<open>
  The documented reply: \<open>{"passed": true, "reason": "..."}\<close> or
  \<open>{"passed": false, "reason": "..."}\<close>, with the text \<open>body\<close> between the quotes of the
  reason.
\<close>

definition verdict_text :: "bool \<Rightarrow> jsstring \<Rightarrow> jsstring" where
  "verdict_text b body =
     js ''{\"passed\": '' @ (if b then js ''true'' else js ''false'')
       @ js '', \"reason\": \"'' @ body @ js ''\"}''"

text \<open>An engine whose messages are the name of the error; used for concrete runs.\<close>

fun plain_engine :: engine where
  "plain_engine (SyntaxError t) = js ''SyntaxError''"
| "plain_engine TypeError = js ''TypeError''"
| "plain_engine (Error m) = m"

section \<open>The LLM gateway\<close>

text \<open>
  A JavaScript number. The gateway does no arithmetic on a number, it only tests whether
  it is truthy, so a finite number is modelled by its value (the literal \<open>0.2\<close> as
  \<open>1/5\<close>; \<open>Finite 0\<close> is \<open>+0\<close>), next to \<open>-0\<close>, \<open>NaN\<close> and the infinities.
\<close>

datatype jsnumber = NaN | NegZero | PosInfinity | NegInfinity | Finite rat

definition truthy_number :: "jsnumber \<Rightarrow> bool" where
  "truthy_number n = (n \<noteq> NaN \<and> n \<noteq> NegZero \<and> n \<noteq> Finite 0)"

text \<open>
  \<open>x || d\<close> on an optional number and on an optional string: \<open>undefined\<close>, a falsy
  number and the empty string give the default.
\<close>

definition or_number :: "jsnumber option \<Rightarrow> jsnumber \<Rightarrow> jsnumber" where
  "or_number x d = (case x of None \<Rightarrow> d | Some n \<Rightarrow> if truthy_number n then n else d)"

definition or_string :: "jsstring option \<Rightarrow> jsstring \<Rightarrow> jsstring" where
  "or_string x d = (case x of None \<Rightarrow> d | Some t \<Rightarrow> if t \<noteq> [] then t else d)"

record LLMRequest =
  prompt :: jsstring
  model :: "jsstring option"
  temperature :: "jsnumber option"
  maxTokens :: "jsnumber option"
  systemPrompt :: "jsstring option"

record MultimodalLLMRequest = LLMRequest +
  images :: "jsstring list option"

text \<open>The field \<open>text\<close> of the source is \<open>response_text\<close> here.\<close>

record LLMResponse =
  response_text :: jsstring
  success :: bool
  error :: "jsstring option"

text \<open>The body posted to the Ollama endpoint; \<open>payload_images\<close> is absent unless set.\<close>

record payload =
  payload_model :: jsstring
  payload_prompt :: jsstring
  payload_system :: "jsstring option"
  payload_temperature :: jsnumber
  payload_max_tokens :: jsnumber
  payload_stream :: bool
  payload_images :: "jsstring list option"

record LocalLLMService =
  baseUrl :: jsstring
  defaultModel :: jsstring

definition new_LocalLLMService :: "jsstring \<Rightarrow> jsstring \<Rightarrow> LocalLLMService" where
  "new_LocalLLMService url m = \<lparr>baseUrl = url, defaultModel = m\<rparr>"

text \<open>
  What the program does not decide itself: the outcome of \<open>fs.mkdir\<close> on a directory
  (the error code, \<open>None\<close> when it succeeds), the outcome of \<open>fs.copyFile\<close> from an
  existing file to a destination (the error code, such as \<open>ENOENT\<close> when the directory
  of the destination does not exist and \<open>ENOTDIR\<close> when it is a regular file; \<open>None\<close>
  when the file system accepts the copy), the answer of \<open>axios.post\<close> (the message of
  the error it rejects with, or the \<open>response\<close> field of the reply), the base64 encoding
  of a buffer, \<open>path.join\<close>, the two folders resolved from the working directory when
  the module is loaded, and the wording of the engine's error messages.
\<close>

type_synonym bytes = "nat list"

record environment =
  mkdir :: "jsstring \<Rightarrow> jsstring option"
  copyfile :: "jsstring \<Rightarrow> jsstring \<Rightarrow> jsstring option"
  post :: "jsstring \<Rightarrow> payload \<Rightarrow> jsstring + jsstring"
  base64 :: "bytes \<Rightarrow> jsstring"
  path_join :: "jsstring \<Rightarrow> jsstring \<Rightarrow> jsstring"
  baselineFolder :: jsstring
  actualFolder :: jsstring
  engine_messages :: engine

text \<open>
  The state the program changes: the files, a log of the paths written, and a log of the
  requests posted to the model backend.
\<close>

record world =
  files :: "jsstring \<rightharpoonup> bytes"
  written :: "jsstring list"
  posts :: "(jsstring \<times> payload) list"

text \<open>
  \<open>LocalLLMService.generateMultimodalResponse\<close>. The whole body is inside \<open>try\<close>; the
  \<open>catch\<close> turns the rejection of \<open>axios.post\<close> into a response with
  \<open>success = false\<close>.
\<close>

definition multimodal_payload :: "LocalLLMService \<Rightarrow> MultimodalLLMRequest \<Rightarrow> payload" where
  "multimodal_payload svc request =
     (let modelToUse = or_string (model request) (defaultModel svc);
          p0 = \<lparr>payload_model = modelToUse,
                payload_prompt = prompt request,
                payload_system = systemPrompt request,
                payload_temperature = or_number (temperature request) (Finite (2 / 10)),
                payload_max_tokens = or_number (maxTokens request) (Finite 1000),
                payload_stream = False,
                payload_images = None\<rparr>;
          p1 = (case images request of
                  Some imgs \<Rightarrow> if length imgs > 0 then p0\<lparr>payload_images := Some imgs\<rparr> else p0
                | None \<Rightarrow> p0)
      in p1\<lparr>payload_max_tokens := or_number (maxTokens request) (Finite 2048)\<rparr>)"

definition generateMultimodalResponse ::
  "environment \<Rightarrow> LocalLLMService \<Rightarrow> MultimodalLLMRequest \<Rightarrow> world \<Rightarrow> LLMResponse \<times> world" where
  "generateMultimodalResponse env svc request w =
     (let url = baseUrl svc @ js ''/generate'';
          body = multimodal_payload svc request;
          w' = w\<lparr>posts := posts w @ [(url, body)]\<rparr>
      in case post env url body of
           Inr reply \<Rightarrow> (\<lparr>response_text = reply, success = True, error = None\<rparr>, w')
         | Inl message \<Rightarrow> (\<lparr>response_text = [], success = False, error = Some message\<rparr>, w'))"

section \<open>Backend selection\<close>

record Config =
  ollamaBaseUrl :: jsstring
  ollamaDefaultModel :: jsstring
  ollamaVisualModel :: jsstring
  aiServiceMode :: jsstring
  googleApiKey :: jsstring
  googleGeminiModel :: jsstring

record GoogleLLMService =
  google_key :: jsstring
  google_defaultModel :: jsstring

datatype llm_service = Local LocalLLMService | Google GoogleLLMService

text \<open>The constructor of \<open>GoogleLLMService\<close> throws when no API key is configured.\<close>

definition new_GoogleLLMService :: "Config \<Rightarrow> thrown + GoogleLLMService" where
  "new_GoogleLLMService cfg =
     (if googleApiKey cfg = []
      then Inl (Error (js ''Google API Key (GOOGLE_API_KEY) is not configured in environment variables.''))
      else Inr \<lparr>google_key = googleApiKey cfg,
                google_defaultModel = or_string (Some (googleGeminiModel cfg)) (js ''gemini-pro'')\<rparr>)"

text \<open>
  \<open>LLMUtils.getLLMService\<close>, with the module variable \<open>llmServiceInstance\<close> passed in
  and out.
\<close>

definition getLLMService :: "Config \<Rightarrow> llm_service option \<Rightarrow> llm_service \<times> llm_service option" where
  "getLLMService cfg llmServiceInstance =
     (case llmServiceInstance of
        Some inst \<Rightarrow> (inst, llmServiceInstance)
      | None \<Rightarrow>
          (let inst =
             (if aiServiceMode cfg = js ''google'' then
                (case new_GoogleLLMService cfg of
                   Inr g \<Rightarrow> Google g
                 | Inl e \<Rightarrow> Local (new_LocalLLMService (ollamaBaseUrl cfg) (ollamaDefaultModel cfg)))
              else Local (new_LocalLLMService (ollamaBaseUrl cfg) (ollamaDefaultModel cfg)))
           in (inst, Some inst)))"

section \<open>The comparison orchestrator\<close>

text \<open>
  The two module constants of \<open>VisualTestHelper\<close>: the service is a
  \<open>LocalLLMService\<close> built when the module is loaded.
\<close>

definition llmService :: "Config \<Rightarrow> LocalLLMService" where
  "llmService cfg = new_LocalLLMService (ollamaBaseUrl cfg) (ollamaDefaultModel cfg)"

definition visualModel :: "Config \<Rightarrow> jsstring" where
  "visualModel cfg = or_string (Some (ollamaVisualModel cfg)) (js ''llava:latest'')"

record VisualAIResult = AnalysisResult +
  baselinePath :: jsstring
  actualPath :: jsstring

record comparison_options =
  updateBaselines :: "bool option"
  failureThreshold :: "jsnumber option"
  mask :: "jsstring list option"

record screenshot_options =
  screenshot_path :: jsstring
  fullPage :: bool
  screenshot_mask :: "jsstring list option"

text \<open>
  The page is the capability to take a screenshot: the image, or \<open>None\<close> when
  \<open>page.screenshot\<close> throws.
\<close>

type_synonym page = "screenshot_options \<Rightarrow> bytes option"

datatype io_error = MkdirError jsstring | ScreenshotError | NoSuchFile jsstring | CopyError jsstring

definition ensureDir :: "environment \<Rightarrow> jsstring \<Rightarrow> io_error + unit" where
  "ensureDir env dirPath =
     (case mkdir env dirPath of
        None \<Rightarrow> Inr ()
      | Some code \<Rightarrow> if code \<noteq> js ''EEXIST'' then Inl (MkdirError code) else Inr ())"

text \<open>
  The file operations. A file is read, tested and copied by its path; an operation on a
  missing file fails, and so does a copy that the file system refuses. Writing a file
  records the path.
\<close>

definition writeFile :: "jsstring \<Rightarrow> bytes \<Rightarrow> world \<Rightarrow> world" where
  "writeFile p b w = w\<lparr>files := (files w)(p \<mapsto> b), written := written w @ [p]\<rparr>"

definition readFile :: "jsstring \<Rightarrow> world \<Rightarrow> io_error + bytes" where
  "readFile p w = (case files w p of None \<Rightarrow> Inl (NoSuchFile p) | Some b \<Rightarrow> Inr b)"

definition access :: "jsstring \<Rightarrow> world \<Rightarrow> io_error + unit" where
  "access p w = (case files w p of None \<Rightarrow> Inl (NoSuchFile p) | Some b \<Rightarrow> Inr ())"

definition copyFile :: "environment \<Rightarrow> jsstring \<Rightarrow> jsstring \<Rightarrow> world \<Rightarrow> io_error + world" where
  "copyFile env src dst w =
     (case files w src of
        None \<Rightarrow> Inl (NoSuchFile src)
      | Some b \<Rightarrow>
          (case copyfile env src dst of
             Some code \<Rightarrow> Inl (CopyError code)
           | None \<Rightarrow> Inr (writeFile dst b w)))"

definition screenshot :: "page \<Rightarrow> screenshot_options \<Rightarrow> world \<Rightarrow> io_error + world" where
  "screenshot pg opts w =
     (case pg opts of
        None \<Rightarrow> Inl ScreenshotError
      | Some img \<Rightarrow> Inr (writeFile (screenshot_path opts) img w))"

definition comparison_prompt :: jsstring where
  "comparison_prompt =
       js '''' @ [10]
     @ js ''    Analyze the differences between the following two screenshots of a web UI.'' @ [10]
     @ js ''    Image 1 is the baseline. Image 2 is the current state.'' @ [10]
     @ js ''    Focus STRICTLY on SIGNIFICANT visual regressions that clearly impact user experience or functionality. Examples of SIGNIFICANT regressions include:'' @ [10]
     @ js ''    - Missing or newly added interactive elements (buttons, links, form fields).'' @ [10]
     @ js ''    - Major layout breaks causing content to overlap, become unreadable, or shift position drastically (e.g., > 10% of viewport width/height).'' @ [10]
     @ js ''    - Text content changes that alter core information or instructions.'' @ [10]
     @ js ''    - Complete failure to load images or critical sections.'' @ [10]
     @ js ''    - Major color changes that affect readability or branding consistency (e.g., white text on white background).'' @ [10]
     @ js '''' @ [10]
     @ js ''    IGNORE the following types of differences:'' @ [10]
     @ js ''    - Minor pixel shifts (less than ~10 pixels).'' @ [10]
     @ js ''    - Anti-aliasing or font rendering variations between environments.'' @ [10]
     @ js ''    - Subtle color variations (unless they impact readability as mentioned above).'' @ [10]
     @ js ''    - Dynamic content like dates, times, or randomly generated data (unless its absence indicates a failure).'' @ [10]
     @ js ''    - Minor spacing or alignment differences that don't break the layout.'' @ [10]
     @ js ''    - Ad variations or third-party content changes.'' @ [10]
     @ js '''' @ [10]
     @ js ''    Respond ONLY with a JSON object in the following format, with no other text or markdown:'' @ [10]
     @ js ''    If there are NO significant differences based on the criteria above: {\"passed\": true, \"reason\": \"No significant visual regressions detected.\"}'' @ [10]
     @ js ''    If there ARE significant differences: {\"passed\": false, \"reason\": \"[Brief description of the MOST significant difference(s) found, focusing on impact]\"}'' @ [10]
     @ js ''    If you cannot perform the comparison (e.g., missing images): {\"passed\": false, \"reason\": \"Comparison could not be performed due to missing visual content.\"}'' @ [10]
     @ js ''    ''"

text \<open>
  The constants \<open>baselinePath\<close>, \<open>actualPath\<close>, \<open>screenshotOptions\<close> and \<open>request\<close>
  of \<open>expectPageToMatchVisuallyAI\<close>.
\<close>

definition baseline_path :: "environment \<Rightarrow> jsstring \<Rightarrow> jsstring" where
  "baseline_path env baselineName = path_join env (baselineFolder env) (baselineName @ js ''.png'')"

definition actual_path :: "environment \<Rightarrow> jsstring \<Rightarrow> jsstring" where
  "actual_path env baselineName = path_join env (actualFolder env) (baselineName @ js ''.png'')"

definition capture_options :: "environment \<Rightarrow> jsstring \<Rightarrow> comparison_options \<Rightarrow> screenshot_options" where
  "capture_options env baselineName options =
     (let screenshotOptions =
            \<lparr>screenshot_path = actual_path env baselineName, fullPage = True, screenshot_mask = None\<rparr>
      in case mask options of
           Some sels \<Rightarrow>
             if length sels > 0 then screenshotOptions\<lparr>screenshot_mask := Some sels\<rparr>
             else screenshotOptions
         | None \<Rightarrow> screenshotOptions)"

definition comparison_request :: "Config \<Rightarrow> jsstring \<Rightarrow> jsstring \<Rightarrow> MultimodalLLMRequest" where
  "comparison_request cfg baselineBase64 actualBase64 =
     \<lparr>prompt = comparison_prompt,
      model = Some (visualModel cfg),
      temperature = Some (Finite (1 / 10)),
      maxTokens = None,
      systemPrompt = None,
      images = Some [baselineBase64, actualBase64]\<rparr>"

text \<open>
  The comparison branch of \<open>expectPageToMatchVisuallyAI\<close>, from the read of the
  baseline to the verdict.
\<close>

definition compare_with_baseline ::
  "environment \<Rightarrow> Config \<Rightarrow> jsstring \<Rightarrow> jsstring \<Rightarrow> world \<Rightarrow> (io_error + VisualAIResult) \<times> world" where
  "compare_with_baseline env cfg baselineName actualBase64 w =
     (case readFile (baseline_path env baselineName) w of
        Inl e \<Rightarrow> (Inl e, w)
      | Inr baselineBuffer \<Rightarrow>
          (let baselineBase64 = base64 env baselineBuffer;
               request = comparison_request cfg baselineBase64 actualBase64;
               (response, w') = generateMultimodalResponse env (llmService cfg) request w
           in if \<not> success response then
                (Inr \<lparr>passed = False,
                      reason = js ''LLM service error during comparison for '' @ baselineName
                        @ js '': '' @ (case error response of None \<Rightarrow> js ''undefined'' | Some m \<Rightarrow> m),
                      baselinePath = baseline_path env baselineName,
                      actualPath = actual_path env baselineName\<rparr>, w')
              else
                (let analysisResult =
                       interpretAIJsonResponse (engine_messages env) (response_text response)
                 in (Inr \<lparr>passed = passed analysisResult,
                          reason = reason analysisResult,
                          baselinePath = baseline_path env baselineName,
                          actualPath = actual_path env baselineName\<rparr>, w'))))"

text \<open>
  \<open>expectPageToMatchVisuallyAI\<close>. A thrown error leaves the function with the state
  reached so far.
\<close>

definition expectPageToMatchVisuallyAI ::
  "environment \<Rightarrow> Config \<Rightarrow> page \<Rightarrow> jsstring \<Rightarrow> comparison_options \<Rightarrow> world
     \<Rightarrow> (io_error + VisualAIResult) \<times> world" where
  "expectPageToMatchVisuallyAI env cfg pg baselineName options w =
     (case ensureDir env (baselineFolder env) of
        Inl e \<Rightarrow> (Inl e, w)
      | Inr u1 \<Rightarrow>
     (case ensureDir env (actualFolder env) of
        Inl e \<Rightarrow> (Inl e, w)
      | Inr u2 \<Rightarrow>
     (case screenshot pg (capture_options env baselineName options) w of
        Inl e \<Rightarrow> (Inl e, w)
      | Inr w1 \<Rightarrow>
     (case readFile (actual_path env baselineName) w1 of
        Inl e \<Rightarrow> (Inl e, w1)
      | Inr actualBuffer \<Rightarrow>
     (let actualBase64 = base64 env actualBuffer;
          baselineExists =
            (case access (baseline_path env baselineName) w1 of Inr u \<Rightarrow> True | Inl e \<Rightarrow> False)
      in if updateBaselines options = Some True \<or> \<not> baselineExists then
           (case copyFile env (actual_path env baselineName) (baseline_path env baselineName) w1 of
              Inl e \<Rightarrow> (Inl e, w1)
            | Inr w2 \<Rightarrow>
                (Inr \<lparr>passed = True,
                      reason = js ''Baseline created/updated.'',
                      baselinePath = baseline_path env baselineName,
                      actualPath = actual_path env baselineName\<rparr>, w2))
         else compare_with_baseline env cfg baselineName actualBase64 w1)))))"

section \<open>POSIX paths\<close>

text \<open>
  \<open>path.join\<close> and \<open>path.dirname\<close> of Node.js for POSIX paths. \<open>segments\<close> cuts a path
  at every \<open>/\<close>; \<open>normalize_segments\<close> drops the empty and the \<open>.\<close> segments and lets
  a \<open>..\<close> segment remove the segment before it (above the start of a relative path the
  \<open>..\<close> is kept, above the root it is dropped); \<open>posix_normalize\<close> puts the root and a
  trailing \<open>/\<close> back; \<open>posix_join\<close> joins its non-empty arguments with \<open>/\<close> and
  normalises the result.
\<close>

fun segments :: "jsstring \<Rightarrow> jsstring \<Rightarrow> jsstring list" where
  "segments cur [] = [cur]"
| "segments cur (c # cs) = (if c = 47 then cur # segments [] cs else segments (cur @ [c]) cs)"

fun normalize_segments :: "bool \<Rightarrow> jsstring list \<Rightarrow> jsstring list \<Rightarrow> jsstring list" where
  "normalize_segments allowAboveRoot res [] = rev res"
| "normalize_segments allowAboveRoot res (seg # segs) =
     (if seg = [] \<or> seg = [46] then normalize_segments allowAboveRoot res segs
      else if seg = [46, 46] then
        (case res of
           lastSeg # others \<Rightarrow>
             if lastSeg \<noteq> [46, 46] then normalize_segments allowAboveRoot others segs
             else if allowAboveRoot then normalize_segments allowAboveRoot (seg # res) segs
             else normalize_segments allowAboveRoot res segs
         | [] \<Rightarrow>
             if allowAboveRoot then normalize_segments allowAboveRoot [seg] segs
             else normalize_segments allowAboveRoot res segs)
      else normalize_segments allowAboveRoot (seg # res) segs)"

fun join_segments :: "jsstring list \<Rightarrow> jsstring" where
  "join_segments [] = []"
| "join_segments [seg] = seg"
| "join_segments (seg # seg' # segs) = seg @ [47] @ join_segments (seg' # segs)"

definition posix_normalize :: "jsstring \<Rightarrow> jsstring" where
  "posix_normalize p =
     (if p = [] then [46]
      else
        (let isAbsolute = (hd p = 47);
             trailingSeparator = (last p = 47);
             q = join_segments (normalize_segments (\<not> isAbsolute) [] (segments [] p))
         in if q = [] then (if isAbsolute then [47] else if trailingSeparator then [46, 47] else [46])
            else (let q' = (if trailingSeparator then q @ [47] else q)
                  in if isAbsolute then 47 # q' else q')))"

definition posix_join :: "jsstring \<Rightarrow> jsstring \<Rightarrow> jsstring" where
  "posix_join a b =
     (if a = [] \<and> b = [] then [46]
      else if a = [] then posix_normalize b
      else if b = [] then posix_normalize a
      else posix_normalize (a @ [47] @ b))"

definition posix_dirname :: "jsstring \<Rightarrow> jsstring" where
  "posix_dirname p =
     (if p = [] then [46]
      else
        (let hasRoot = (hd p = 47);
             r = dropWhile (\<lambda>c. c \<noteq> 47) (dropWhile (\<lambda>c. c = 47) (rev (tl p)));
             stop = length r
         in if stop = 0 then (if hasRoot then [47] else [46])
            else if hasRoot \<and> stop = 1 then [47, 47]
            else take stop p))"

section \<open>Sample values for concrete runs\<close>

definition sample_config :: Config where
  "sample_config =
     \<lparr>ollamaBaseUrl = js ''http://localhost:11434/api'',
      ollamaDefaultModel = js ''llama3:latest'',
      ollamaVisualModel = js ''llava:latest'',
      aiServiceMode = js ''local'',
      googleApiKey = [],
      googleGeminiModel = js ''gemini-pro''\<rparr>"

definition google_config :: Config where
  "google_config = sample_config\<lparr>aiServiceMode := js ''google'', googleApiKey := js ''key''\<rparr>"

text \<open>
  The directories of the sample file system once both folders are made: the two folders
  and the directories above them. A copy to a path in any other directory is refused
  with \<open>ENOENT\<close>.
\<close>

definition sample_directories :: "jsstring list" where
  "sample_directories =
     [js ''/'', js ''/w'',
      js ''/w/tests'', js ''/w/tests/visual-baselines'',
      js ''/w/test-results'', js ''/w/test-results/visual-actuals'']"

text \<open>An environment whose model backend is unreachable, and one whose backend answers.\<close>

definition offline_environment :: environment where
  "offline_environment =
     \<lparr>mkdir = (\<lambda>d. None),
      copyfile = (\<lambda>src dst. if posix_dirname dst \<in> set sample_directories then None
                            else Some (js ''ENOENT'')),
      post = (\<lambda>url body. Inl (js ''connect ECONNREFUSED 127.0.0.1:11434'')),
      base64 = (\<lambda>b. b),
      path_join = posix_join,
      baselineFolder = js ''/w/tests/visual-baselines'',
      actualFolder = js ''/w/test-results/visual-actuals'',
      engine_messages = plain_engine\<rparr>"

definition online_environment :: environment where
  "online_environment =
     offline_environment
       \<lparr>post := (\<lambda>url body. Inr (js ''{\"passed\": true, \"reason\": \"ok\"}''))\<rparr>"

text \<open>
  A file system in which the baseline folder is a regular file: \<open>fs.mkdir\<close> rejects
  with \<open>EEXIST\<close>, which \<open>ensureDir\<close> swallows, and a copy into the folder is refused with
  \<open>ENOTDIR\<close>.
\<close>

definition blocked_environment :: environment where
  "blocked_environment =
     offline_environment
       \<lparr>mkdir := (\<lambda>d. if d = js ''/w/tests/visual-baselines'' then Some (js ''EEXIST'') else None),
        copyfile := (\<lambda>src dst. if posix_dirname dst = js ''/w/tests/visual-baselines''
                              then Some (js ''ENOTDIR'') else copyfile offline_environment src dst)\<rparr>"

definition blocked_world :: world where
  "blocked_world =
     \<lparr>files = [js ''/w/tests/visual-baselines'' \<mapsto> [0]], written = [], posts = []\<rparr>"

definition sample_page :: page where
  "sample_page opts = Some [137, 80, 78, 71]"

definition sample_options :: comparison_options where
  "sample_options = \<lparr>updateBaselines = None, failureThreshold = None, mask = None\<rparr>"

definition empty_world :: world where
  "empty_world = \<lparr>files = Map.empty, written = [], posts = []\<rparr>"

definition seeded_world :: world where
  "seeded_world =
     \<lparr>files = [js ''/w/tests/visual-baselines/home.png'' \<mapsto> [1, 2, 3]], written = [], posts = []\<rparr>"

section \<open>Auxiliary notions for the proofs\<close>

text \<open>\<open>prepend_char\<close> puts a decoded character in front of the result of the rest of a string.\<close>

definition prepend_char :: "codeunit \<Rightarrow> (jsstring \<times> jsstring) option \<Rightarrow> (jsstring \<times> jsstring) option" where
  "prepend_char c r = (case r of None \<Rightarrow> None | Some (str, rest) \<Rightarrow> Some (c # str, rest))"

text \<open>
  The grammar of the text between the quotes of a JSON string: \<open>string_body b x\<close> holds
  when \<open>b\<close> is such a text and \<open>x\<close> the string it denotes.
\<close>

inductive string_body :: "jsstring \<Rightarrow> jsstring \<Rightarrow> bool" where
  Empty: "string_body [] []"
| Plain: "c \<noteq> 34 \<Longrightarrow> c \<noteq> 92 \<Longrightarrow> 32 \<le> c \<Longrightarrow> string_body b x \<Longrightarrow> string_body (c # b) (c # x)"
| Escape: "unescape e = Some u \<Longrightarrow> string_body b x \<Longrightarrow> string_body (92 # e # b) (u # x)"
| Unicode: "hex_value h1 = Some d1 \<Longrightarrow> hex_value h2 = Some d2 \<Longrightarrow> hex_value h3 = Some d3 \<Longrightarrow>
     hex_value h4 = Some d4 \<Longrightarrow> string_body b x \<Longrightarrow>
     string_body (92 # 117 # h1 # h2 # h3 # h4 # b) ((d1 * 4096 + d2 * 256 + d3 * 16 + d4) # x)"

text \<open>The documented reply without its braces.\<close>

definition verdict_middle :: "bool \<Rightarrow> jsstring \<Rightarrow> jsstring" where
  "verdict_middle t b =
     js ''\"passed\": '' @ (if t then js ''true'' else js ''false'') @ js '', \"reason\": \"'' @ b @ [34]"

section \<open>Facts about strings and the parser\<close>

lemmas parse_value_Suc = parse_value.simps(2)
lemmas parse_elements_Suc = parse_elements.simps(2)
lemmas parse_members_Suc = parse_members.simps(2)

declare parse_value.simps(2) [simp del] parse_elements.simps(2) [simp del] parse_members.simps(2) [simp del]

lemma fuel_step:
  "(\<forall>s. parse_value n s \<noteq> Inl OutOfFuel \<longrightarrow> parse_value (Suc n) s = parse_value n s)
   \<and> (\<forall>s. parse_elements n s \<noteq> Inl OutOfFuel \<longrightarrow> parse_elements (Suc n) s = parse_elements n s)
   \<and> (\<forall>s. parse_members n s \<noteq> Inl OutOfFuel \<longrightarrow> parse_members (Suc n) s = parse_members n s)"
proof (induction n)
  case 0
  show ?case by simp
next
  case (Suc n)
  have v: "parse_value (Suc n) s = parse_value n s" if "parse_value n s \<noteq> Inl OutOfFuel" for s
    using Suc that by blast
  have e: "parse_elements (Suc n) s = parse_elements n s" if "parse_elements n s \<noteq> Inl OutOfFuel" for s
    using Suc that by blast
  have m: "parse_members (Suc n) s = parse_members n s" if "parse_members n s \<noteq> Inl OutOfFuel" for s
    using Suc that by blast
  have V: "parse_value (Suc (Suc n)) s = parse_value (Suc n) s" if "parse_value (Suc n) s \<noteq> Inl OutOfFuel" for s
  proof (cases s)
    case Nil
    then show ?thesis by (simp add: parse_value_Suc)
  next
    case (Cons c cs)
    show ?thesis
    proof (cases "skip_ws cs")
      case Nil
      then show ?thesis using Cons by (simp add: parse_value_Suc)
    next
      case d: (Cons d ds)
      have 1: "parse_members (Suc n) (d # ds) = parse_members n (d # ds)" if "c = 123" "d \<noteq> 125"
        using \<open>parse_value (Suc n) s \<noteq> Inl OutOfFuel\<close> that Cons d
        by (intro m) (auto simp: parse_value_Suc [of n] split: sum.splits)
      have 2: "parse_elements (Suc n) (d # ds) = parse_elements n (d # ds)" if "c \<noteq> 123" "c = 91" "d \<noteq> 93"
        using \<open>parse_value (Suc n) s \<noteq> Inl OutOfFuel\<close> that Cons d
        by (intro e) (auto simp: parse_value_Suc [of n] split: sum.splits)
      show ?thesis using Cons d 1 2 by (auto simp: parse_value_Suc [of "Suc n"] parse_value_Suc [of n])
    qed
  qed
  have E: "parse_elements (Suc (Suc n)) s = parse_elements (Suc n) s" if h: "parse_elements (Suc n) s \<noteq> Inl OutOfFuel" for s
  proof -
    have 1: "parse_value n (skip_ws s) \<noteq> Inl OutOfFuel"
      using h by (auto simp: parse_elements_Suc [of n] split: sum.splits)
    have 2: "parse_elements (Suc n) ds = parse_elements n ds"
      if "parse_value n (skip_ws s) = Inr (x, rest)" "skip_ws rest = 44 # ds" for x rest ds
      using h that by (intro e) (auto simp: parse_elements_Suc [of n] split: sum.splits)
    show ?thesis
      using v [OF 1] 2
      by (auto simp: parse_elements_Suc [of "Suc n"] parse_elements_Suc [of n]
            split: sum.splits list.splits)
  qed
  have M: "parse_members (Suc (Suc n)) s = parse_members (Suc n) s" if h: "parse_members (Suc n) s \<noteq> Inl OutOfFuel" for s
  proof (cases "skip_ws s")
    case Nil
    then show ?thesis by (simp add: parse_members_Suc)
  next
    case q: (Cons q qs)
    show ?thesis
    proof (cases "parse_string_body qs")
      case None
      then show ?thesis using q by (simp add: parse_members_Suc)
    next
      case (Some kr)
      obtain key r1 where kr: "kr = (key, r1)" by (cases kr)
      show ?thesis
      proof (cases "skip_ws r1")
        case Nil
        then show ?thesis using q Some kr by (simp add: parse_members_Suc)
      next
        case k: (Cons k r2)
        have 1: "parse_value (Suc n) (skip_ws r2) = parse_value n (skip_ws r2)" if "q = 34" "k = 58"
          using h that q Some kr k
          by (intro v) (auto simp: parse_members_Suc [of n] split: sum.splits)
        have 2: "parse_members (Suc n) ds = parse_members n ds"
          if "q = 34" "k = 58" "parse_value n (skip_ws r2) = Inr (x, r3)" "skip_ws r3 = 44 # ds" for x r3 ds
          using h that q Some kr k
          by (intro m) (auto simp: parse_members_Suc [of n] split: sum.splits)
        show ?thesis
          using q Some kr k 1 2
          by (auto simp: parse_members_Suc [of "Suc n"] parse_members_Suc [of n]
                split: sum.splits list.splits)
      qed
    qed
  qed
  show ?case using V E M by blast
qed


lemma fuel_mono:
  assumes "n \<le> m"
  shows "parse_value n s \<noteq> Inl OutOfFuel \<Longrightarrow> parse_value m s = parse_value n s"
    and "parse_elements n s \<noteq> Inl OutOfFuel \<Longrightarrow> parse_elements m s = parse_elements n s"
    and "parse_members n s \<noteq> Inl OutOfFuel \<Longrightarrow> parse_members m s = parse_members n s"
  using assms
proof (induction m)
  case 0
  { case 1 then show ?case by simp }
  { case 2 then show ?case by simp }
  { case 3 then show ?case by simp }
next
  case (Suc m)
  { case 1 then show ?case using Suc.IH(1) fuel_step [of m] by (cases "n = Suc m") auto }
  { case 2 then show ?case using Suc.IH(2) fuel_step [of m] by (cases "n = Suc m") auto }
  { case 3 then show ?case using Suc.IH(3) fuel_step [of m] by (cases "n = Suc m") auto }
qed

lemma length_skip_ws: "length (skip_ws s) \<le> length s"
  by (simp add: skip_ws_def length_dropWhile_le)

lemma skip_ws_Cons_length: "skip_ws s = d # ds \<Longrightarrow> length ds < length s"
  using length_skip_ws [of s] by simp

lemma psb_quote: "parse_string_body (34 # cs) = Some ([], cs)"
  by simp

lemma psb_plain:
  "c \<noteq> 34 \<Longrightarrow> c \<noteq> 92 \<Longrightarrow> 32 \<le> c \<Longrightarrow>
     parse_string_body (c # cs) = prepend_char c (parse_string_body cs)"
  by (simp add: prepend_char_def)

lemma psb_control: "c < 32 \<Longrightarrow> parse_string_body (c # cs) = None"
  by simp

lemma psb_lone_backslash: "parse_string_body [92] = None"
  by simp

lemma psb_escape:
  "e \<noteq> 117 \<Longrightarrow> parse_string_body (92 # e # r) =
     (case unescape e of None \<Rightarrow> None | Some u \<Rightarrow> prepend_char u (parse_string_body r))"
  by (simp add: prepend_char_def split: option.splits)

lemma psb_unicode_short: "length r < 4 \<Longrightarrow> parse_string_body (92 # 117 # r) = None"
  by (auto split: list.splits)

lemma four_elements: "4 \<le> length r \<Longrightarrow> \<exists>h1 h2 h3 h4 r'. r = h1 # h2 # h3 # h4 # r'"
  by (auto simp: Suc_le_length_iff numeral_eq_Suc)

lemma psb_unicode:
  "parse_string_body (92 # 117 # h1 # h2 # h3 # h4 # r) =
     (case (hex_value h1, hex_value h2, hex_value h3, hex_value h4) of
        (Some a, Some b, Some c, Some d) \<Rightarrow>
          prepend_char (a * 4096 + b * 256 + c * 16 + d) (parse_string_body r)
      | _ \<Rightarrow> None)"
  by (simp add: prepend_char_def split: option.splits)

lemma psb_cases:
  fixes s :: jsstring
  obtains "s = []"
  | cs where "s = 34 # cs"
  | c cs where "s = c # cs" "c \<noteq> 34" "c \<noteq> 92" "32 \<le> c"
  | c cs where "s = c # cs" "c < 32"
  | "s = [92]"
  | e r where "s = 92 # e # r" "e \<noteq> 117"
  | r where "s = 92 # 117 # r" "length r < 4"
  | h1 h2 h3 h4 r where "s = 92 # 117 # h1 # h2 # h3 # h4 # r"
proof (cases s)
  case Nil
  then show ?thesis using that(1) by simp
next
  case (Cons c cs)
  consider "c = 34" | "c < 32" | "c = 92" | "c \<noteq> 34" "c \<noteq> 92" "32 \<le> c"
    by fastforce
  then show ?thesis
  proof cases
    case 1 then show ?thesis using Cons that(2) by simp
  next
    case 2 then show ?thesis using Cons that(4) by simp
  next
    case 4 then show ?thesis using Cons that(3) by simp
  next
    case 3
    show ?thesis
    proof (cases cs)
      case Nil
      then show ?thesis using Cons 3 that(5) by simp
    next
      case e: (Cons e r)
      show ?thesis
      proof (cases "e = 117")
        case False
        then show ?thesis using Cons 3 e that(6) by simp
      next
        case True
        show ?thesis
        proof (cases "length r < 4")
          case True
          then show ?thesis using Cons 3 e \<open>e = 117\<close> that(7) by simp
        next
          case False
          then obtain h1 h2 h3 h4 r' where "r = h1 # h2 # h3 # h4 # r'"
            using four_elements [of r] by auto
          then show ?thesis using Cons 3 e \<open>e = 117\<close> that(8) by simp
        qed
      qed
    qed
  qed
qed

lemma unescape_not_u: "unescape e = Some u \<Longrightarrow> e \<noteq> 117"
  by (auto simp: unescape_def split: if_splits)

lemma string_body_parse:
  "string_body b x \<Longrightarrow> parse_string_body (b @ 34 # t) = Some (x, t)"
proof (induction rule: string_body.induct)
  case Empty
  show ?case by (simp add: psb_quote)
next
  case (Plain c b x)
  then show ?case by (simp add: psb_plain prepend_char_def del: parse_string_body.simps)
next
  case (Escape e u b x)
  then show ?case
    using unescape_not_u [OF Escape.hyps(1)]
    by (simp add: psb_escape prepend_char_def del: parse_string_body.simps)
next
  case (Unicode h1 d1 h2 d2 h3 d3 h4 d4 b x)
  then show ?case by (simp add: psb_unicode prepend_char_def del: parse_string_body.simps)
qed

lemma prepend_char_Some:
  "prepend_char c r = Some (x, rest) \<longleftrightarrow> (\<exists>x'. x = c # x' \<and> r = Some (x', rest))"
  by (auto simp: prepend_char_def split: option.splits)

lemma parse_string_body_complete:
  "parse_string_body s = Some (x, rest) \<Longrightarrow> \<exists>b. s = b @ 34 # rest \<and> string_body b x"
proof (induction "length s" arbitrary: s x rule: less_induct)
  case less
  note IH = less.hyps and p = less.prems
  show ?case
  proof (cases s rule: psb_cases)
    case 1
    then show ?thesis using p by simp
  next
    case (2 cs)
    then show ?thesis using p string_body.Empty by (auto simp: psb_quote simp del: parse_string_body.simps)
  next
    case (3 c cs)
    with p obtain x' where x: "x = c # x'" and p': "parse_string_body cs = Some (x', rest)"
      by (auto simp: psb_plain prepend_char_Some simp del: parse_string_body.simps)
    from IH [OF _ p'] 3 obtain b where "cs = b @ 34 # rest" "string_body b x'" by auto
    then show ?thesis using 3 x string_body.Plain [of c b x'] by (intro exI [of _ "c # b"]) simp
  next
    case (4 c cs)
    then show ?thesis using p by (simp add: psb_control del: parse_string_body.simps)
  next
    case 5
    then show ?thesis using p by (simp add: psb_lone_backslash del: parse_string_body.simps)
  next
    case (6 e r)
    with p obtain u x' where u: "unescape e = Some u" and x: "x = u # x'"
      and p': "parse_string_body r = Some (x', rest)"
      by (auto simp: psb_escape prepend_char_Some simp del: parse_string_body.simps split: option.splits)
    from IH [OF _ p'] 6 obtain b where "r = b @ 34 # rest" "string_body b x'" by auto
    then show ?thesis using 6 x u string_body.Escape [of e u b x']
      by (intro exI [of _ "92 # e # b"]) simp
  next
    case (7 r)
    then show ?thesis using p by (simp add: psb_unicode_short del: parse_string_body.simps)
  next
    case (8 h1 h2 h3 h4 r)
    with p obtain d1 d2 d3 d4 x' where h: "hex_value h1 = Some d1" "hex_value h2 = Some d2"
        "hex_value h3 = Some d3" "hex_value h4 = Some d4"
      and x: "x = (d1 * 4096 + d2 * 256 + d3 * 16 + d4) # x'"
      and p': "parse_string_body r = Some (x', rest)"
      by (auto simp: psb_unicode prepend_char_Some simp del: parse_string_body.simps split: option.splits)
    from IH [OF _ p'] 8 obtain b where "r = b @ 34 # rest" "string_body b x'" by auto
    then show ?thesis using 8 x string_body.Unicode [OF h, of b x']
      by (intro exI [of _ "92 # 117 # h1 # h2 # h3 # h4 # b"]) simp
  qed
qed

lemma parse_string_body_shorter:
  "parse_string_body s = Some (x, rest) \<Longrightarrow> length rest < length s"
  by (auto dest: parse_string_body_complete)

lemma string_body_iff:
  "parse_string_body (b @ [34]) = Some (x, []) \<longleftrightarrow> string_body b x"
  using parse_string_body_complete [of "b @ [34]" x "[]"] string_body_parse [of b x "[]"]
  by auto

lemma hex_value_char: "hex_value h = Some d \<Longrightarrow> 32 \<le> h"
  by (simp add: hex_value_def split: if_splits)

lemma unescape_char: "unescape e = Some u \<Longrightarrow> 32 \<le> e"
  by (simp add: unescape_def split: if_splits)

lemma string_body_chars: "string_body b x \<Longrightarrow> c \<in> set b \<Longrightarrow> 32 \<le> c"
  by (induction rule: string_body.induct) (auto dest: hex_value_char unescape_char)

lemma string_body_no_bare_quote: "\<not> string_body (34 # b) x"
  by (auto elim: string_body.cases)

lemma string_body_plain_tail:
  "string_body (c # b) x \<Longrightarrow> c \<noteq> 92 \<Longrightarrow> \<exists>x'. string_body b x'"
  by (auto elim: string_body.cases)

lemma string_body_quote_then:
  assumes "string_body b x" and "\<forall>c \<in> set w. c \<noteq> 92 \<and> c \<noteq> 34"
      and "prefix (w @ [34, d]) (b @ [34, 125])"
  shows "d = 125"
  using assms
proof (induction w arbitrary: b x)
  case Nil
  then show ?case
    by (cases b) (auto simp: string_body_no_bare_quote)
next
  case (Cons a w)
  show ?case
  proof (cases b)
    case Nil
    then show ?thesis using Cons.prems by auto
  next
    case b: (Cons c b')
    with Cons.prems have "c = a" and pre: "prefix (w @ [34, d]) (b' @ [34, 125])" by auto
    with Cons.prems b obtain x' where "string_body b' x'"
      using string_body_plain_tail [of c b' x] by auto
    from Cons.IH [OF this _ pre] Cons.prems(2) show ?thesis by simp
  qed
qed

section \<open>Facts about the interpreter\<close>

lemma substring_from_start: "substring 0 (int n) s = take n s"
  by (simp add: substring_def Let_def min_def)

lemma substring_100: "substring 0 100 s = take 100 s"
  using substring_from_start [of 100 s] by simp

lemma substring_200: "substring 0 200 s = take 200 s"
  using substring_from_start [of 200 s] by simp

lemma indexOf_absent: "c \<notin> set s \<Longrightarrow> indexOf c s = -1"
  by (induction s) (simp_all add: Let_def)

lemma indexOf_bounds: "c \<in> set s \<Longrightarrow> 0 \<le> indexOf c s \<and> indexOf c s < int (length s)"
  by (induction s) (auto simp: Let_def indexOf_absent)

lemma indexOf_minus_one_iff: "indexOf c s = -1 \<longleftrightarrow> c \<notin> set s"
  using indexOf_absent [of c s] indexOf_bounds [of c s] by auto

lemma lastIndexOf_absent: "c \<notin> set s \<Longrightarrow> lastIndexOf c s = -1"
  by (simp add: lastIndexOf_def indexOf_absent)

lemma clean_response_no_braces:
  assumes "123 \<notin> set (strip_fences s) \<or> 125 \<notin> set (strip_fences s)"
  shows "clean_response s = Inl (Error delimiter_message)"
  using assms by (auto simp: clean_response_def Let_def indexOf_absent lastIndexOf_absent)

lemma interpret_catch_reason_nonempty: "reason (interpret_catch eng s e) \<noteq> []"
  by (simp add: interpret_catch_def js_def)

lemma interpret_try_no_braces: "clean_response s = Inl e \<Longrightarrow> interpret_try s = Inl e"
  by (simp add: interpret_try_def)

lemma interpret_try_syntax_error:
  "clean_response s = Inr t \<Longrightarrow> JSON_parse t = Inl pe \<Longrightarrow> interpret_try s = Inl (SyntaxError t)"
  by (simp add: interpret_try_def)

lemma interpret_try_wrong_shape:
  assumes "clean_response s = Inr t" and "JSON_parse t = Inr v" and "v \<noteq> JNull"
      and "\<not> has_verdict_shape v"
  shows "interpret_try s =
           Inr \<lparr>passed = False, reason = lacked_fields_prefix @ substring 0 200 s @ ellipsis\<rparr>"
  using assms
  by (cases v) (auto simp: interpret_try_def has_verdict_shape_def split: option.splits json.splits)

lemma interpret_try_verdict:
  assumes "clean_response s = Inr t" and "JSON_parse t = Inr v"
      and "get_property v (js ''passed'') = Inr (Some (JBool b))"
      and "get_property v (js ''reason'') = Inr (Some (JString r))"
  shows "interpret_try s = Inr \<lparr>passed = b, reason = r\<rparr>"
  using assms by (simp add: interpret_try_def)

lemma has_verdict_shapeD:
  assumes "has_verdict_shape v"
  obtains b r where "get_property v (js ''passed'') = Inr (Some (JBool b))"
    and "get_property v (js ''reason'') = Inr (Some (JString r))"
  using assms
  by (auto simp: has_verdict_shape_def split: sum.splits option.splits json.splits)

lemma indexOf_first: "c \<notin> set xs \<Longrightarrow> indexOf c (xs @ c # ys) = int (length xs)"
  by (induction xs) (simp_all add: Let_def)

lemma indexOf_last: "c \<notin> set ys \<Longrightarrow> lastIndexOf c (xs @ c # ys) = int (length xs)"
  using indexOf_first [of c "rev ys" "rev xs"] by (simp add: lastIndexOf_def)

lemma substring_in_range:
  "a \<le> b \<Longrightarrow> b \<le> length s \<Longrightarrow> substring (int a) (int b) s = take (b - a) (drop a s)"
  by (simp add: substring_def Let_def min_def max_def nat_diff_distrib')

lemma substring_between:
  "substring (int (length xs)) (int (length xs + length m)) (xs @ m @ ys) = m"
  using substring_in_range [of "length xs" "length xs + length m" "xs @ m @ ys"] by simp

lemma slice_from_first_brace:
  assumes "indexOf c s \<noteq> -1" and "lastIndexOf d s \<noteq> -1" and "indexOf c s \<le> lastIndexOf d s"
  shows "\<exists>r. substring (indexOf c s) (lastIndexOf d s + 1) s = c # r"
proof -
  have cin: "c \<in> set s" and din: "d \<in> set s"
    using assms indexOf_absent [of c s] lastIndexOf_absent [of d s] by auto
  obtain xs ys where s: "s = xs @ c # ys" and "c \<notin> set xs"
    using cin by (auto dest: split_list_first)
  then have i: "indexOf c s = int (length xs)" by (simp add: indexOf_first)
  obtain us vs where s': "s = us @ d # vs" and "d \<notin> set vs"
    using din by (auto dest: split_list_last)
  then have l: "lastIndexOf d s = int (length us)" by (simp add: indexOf_last)
  have le: "length xs \<le> length us" using assms(3) i l by simp
  have len: "length us + 1 \<le> length s" using s' by simp
  have "substring (int (length xs)) (int (length us + 1)) s
          = take (length us + 1 - length xs) (drop (length xs) s)"
    using le len by (intro substring_in_range) auto
  also have "\<dots> = take (Suc (length us - length xs)) (c # ys)"
    using le by (simp add: s Suc_diff_le)
  finally have F: "substring (int (length xs)) (int (length us + 1)) s
      = c # take (length us - length xs) ys" by simp
  have eq: "lastIndexOf d s + 1 = int (length us + 1)" by (simp add: l)
  show ?thesis unfolding i eq F by blast
qed

lemma insert_missing_comma_first_brace:
  "insert_missing_comma [] (123 # r) = 123 # insert_missing_comma [123] r"
  by (simp add: lookbehind_passed_def js_def)

lemma clean_response_starts_with_brace:
  assumes "clean_response s = Inr t"
  shows "\<exists>r. t = 123 # r"
proof -
  let ?T = "strip_fences s"
  from assms have f: "indexOf 123 ?T \<noteq> -1" and l: "lastIndexOf 125 ?T \<noteq> -1"
    and fl: "indexOf 123 ?T \<le> lastIndexOf 125 ?T"
    and t: "t = insert_missing_comma [] (flatten_newlines
           (substring (indexOf 123 ?T) (lastIndexOf 125 ?T + 1) ?T))"
    by (auto simp: clean_response_def Let_def split: if_splits)
  from slice_from_first_brace [OF f l fl] obtain r
    where "substring (indexOf 123 ?T) (lastIndexOf 125 ?T + 1) ?T = 123 # r" by blast
  then have "t = insert_missing_comma [] (123 # flatten_newlines r)"
    by (simp add: t flatten_newlines_def)
  then show ?thesis
    by (simp only: insert_missing_comma_first_brace) blast
qed

lemma skip_ws_brace: "skip_ws (123 # r) = 123 # r"
  by (simp add: skip_ws_def is_json_ws_def)

lemma parse_value_object:
  "parse_value n (123 # r) = Inr (v, rest) \<Longrightarrow> \<exists>ms. v = JObject ms"
  by (cases n) (auto simp: parse_value_Suc split: sum.splits list.splits if_splits)

lemma JSON_parse_object:
  assumes "JSON_parse (123 # r) = Inr v"
  shows "\<exists>ms. v = JObject ms"
  using assms unfolding JSON_parse_def skip_ws_brace
  by (auto split: sum.splits if_splits dest: parse_value_object)

lemma parsed_clean_response_is_object:
  assumes "clean_response s = Inr t" and "JSON_parse t = Inr v"
  shows "\<exists>ms. v = JObject ms"
  using clean_response_starts_with_brace [OF assms(1)] JSON_parse_object assms(2) by blast


section \<open>Facts about the missing-comma repair\<close>

declare insert_missing_comma.simps [simp del]
declare remove_fence_open.simps [simp del]

lemma reason_key_eq: "reason_key = [34, 114, 101, 97, 115, 111, 110, 34, 58]"
  by (simp add: reason_key_def js_def)

lemma passed_key_eq: "passed_key = [34, 112, 97, 115, 115, 101, 100, 34, 58]"
  by (simp add: passed_key_def js_def)

lemma lookbehind_passed_eq:
  "lookbehind_passed bs \<longleftrightarrow>
     (prefix [101, 117, 114, 116] bs
        \<and> prefix [58, 34, 100, 101, 115, 115, 97, 112, 34] (dropWhile is_js_space (drop 4 bs)))
     \<or> (prefix [101, 115, 108, 97, 102] bs
        \<and> prefix [58, 34, 100, 101, 115, 115, 97, 112, 34] (dropWhile is_js_space (drop 5 bs)))"
  by (simp add: lookbehind_passed_def passed_key_eq js_def)

lemma lookbehind_Nil [simp]: "\<not> lookbehind_passed []"
  by (simp add: lookbehind_passed_eq)

lemma lookbehind_not_e [simp]: "c \<noteq> 101 \<Longrightarrow> \<not> lookbehind_passed (c # bs)"
  by (simp add: lookbehind_passed_eq)

lemma lookbehind_e_other [simp]: "c \<noteq> 117 \<Longrightarrow> c \<noteq> 115 \<Longrightarrow> \<not> lookbehind_passed (101 # c # bs)"
  by (simp add: lookbehind_passed_eq)

lemma space_not_e: "is_js_space c \<Longrightarrow> c \<noteq> 101"
  by (auto simp: is_js_space_def)

lemma comma_at_spaces:
  "\<forall>x \<in> set w. is_js_space x \<Longrightarrow> is_js_space c \<Longrightarrow>
     comma_at_each_site (c # bs) (w @ t) = w @ comma_at_each_site (rev w @ c # bs) t"
proof (induction w arbitrary: c bs)
  case Nil
  show ?case by simp
next
  case (Cons x w)
  have "comma_at_each_site (c # bs) ((x # w) @ t) = x # comma_at_each_site (x # c # bs) (w @ t)"
    using Cons.prems(2) by (simp add: space_not_e)
  also have "\<dots> = x # w @ comma_at_each_site (rev w @ x # c # bs) t"
    using Cons.IH [of x "c # bs"] Cons.prems(1) by simp
  finally show ?case by simp
qed

lemma comma_at_key_tail:
  "comma_at_each_site (34 # bs) ([114, 101, 97, 115, 111, 110, 34, 58] @ t) =
     [114, 101, 97, 115, 111, 110, 34, 58]
       @ comma_at_each_site (58 # 34 # 110 # 111 # 115 # 97 # 101 # 114 # 34 # bs) t"
  by simp

lemma matches_reasonD:
  assumes "matches_reason s"
  obtains rest where "s = takeWhile is_js_space s @ reason_key @ rest"
proof -
  from assms obtain rest where "dropWhile is_js_space s = reason_key @ rest"
    by (auto simp: matches_reason_def prefix_def)
  then have "s = takeWhile is_js_space s @ reason_key @ rest"
    using takeWhile_dropWhile_id [of is_js_space s] by simp
  then show ?thesis by (rule that)
qed

lemma takeWhile_spaces: "\<forall>x \<in> set (takeWhile is_js_space s). is_js_space x"
  by (auto dest: set_takeWhileD)

lemma comma_at_match:
  assumes site: "lookbehind_passed bs" "matches_reason (c # cs)"
  defines "m \<equiv> takeWhile is_js_space (c # cs) @ reason_key"
  shows "comma_at_each_site bs (c # cs) =
           44 # m @ comma_at_each_site (rev m @ bs) (drop (length m) (c # cs))"
proof -
  let ?w = "takeWhile is_js_space (c # cs)"
  let ?tail = "[114, 101, 97, 115, 111, 110, 34, 58] :: jsstring"
  obtain rest where s: "c # cs = ?w @ reason_key @ rest"
    using site(2) by (rule matches_reasonD)
  have d: "drop (length m) (c # cs) = rest"
    using s by (metis append.assoc append_eq_conv_conj m_def)
  have key: "reason_key = 34 # ?tail" by (simp add: reason_key_eq)
  show ?thesis
  proof (cases ?w)
    case Nil
    with s have "c # cs = 34 # ?tail @ rest" by (simp only: key append_Nil append_Cons)
    then have cs: "c = 34" "cs = ?tail @ rest" by simp_all
    have "comma_at_each_site bs (c # cs) = 44 # 34 # comma_at_each_site (34 # bs) (?tail @ rest)"
      using site unfolding cs(2) [symmetric] by (simp add: cs(1))
    also have "\<dots> = 44 # 34 # ?tail @ comma_at_each_site (rev ?tail @ 34 # bs) rest"
      by (simp only: comma_at_key_tail) simp
    finally have "comma_at_each_site bs (c # cs)
        = 44 # 34 # ?tail @ comma_at_each_site (rev ?tail @ 34 # bs) rest" .
    moreover have "m = 34 # ?tail" using Nil by (simp add: m_def key)
    ultimately show ?thesis unfolding d by simp
  next
    case (Cons x w)
    then have c: "c = x" and cs: "cs = w @ reason_key @ rest" using s by auto
    have "\<forall>y \<in> set (x # w). is_js_space y"
      using takeWhile_spaces [of "c # cs"] unfolding Cons .
    then have sp: "is_js_space x" "\<forall>y \<in> set w. is_js_space y" by simp_all
    have last_space: "is_js_space (hd (rev w @ x # bs))"
      using sp by (cases w rule: rev_cases) auto
    obtain y ys where ys: "rev w @ x # bs = y # ys" by (cases "rev w @ x # bs") auto
    with last_space have y: "is_js_space y" by simp
    have "comma_at_each_site bs (c # cs) = 44 # x # comma_at_each_site (x # bs) (w @ reason_key @ rest)"
      using site unfolding cs [symmetric] by (simp add: c)
    also have "comma_at_each_site (x # bs) (w @ reason_key @ rest)
        = w @ comma_at_each_site (rev w @ x # bs) (reason_key @ rest)"
      using comma_at_spaces [OF sp(2) sp(1)] by simp
    also have "comma_at_each_site (rev w @ x # bs) (reason_key @ rest)
        = 34 # comma_at_each_site (34 # rev w @ x # bs) (?tail @ rest)"
      unfolding ys key using y by (simp add: space_not_e)
    also have "comma_at_each_site (34 # rev w @ x # bs) (?tail @ rest)
        = ?tail @ comma_at_each_site (rev ?tail @ 34 # rev w @ x # bs) rest"
      by (simp only: comma_at_key_tail) simp
    finally have "comma_at_each_site bs (c # cs)
        = 44 # x # w @ 34 # ?tail @ comma_at_each_site (rev ?tail @ 34 # rev w @ x # bs) rest" .
    moreover have "m = x # w @ 34 # ?tail" using Cons by (simp add: m_def key)
    ultimately show ?thesis unfolding d by simp
  qed
qed

lemma insert_missing_comma_eq: "insert_missing_comma bs s = comma_at_each_site bs s"
proof (induction bs s rule: insert_missing_comma.induct)
  case (1 bs)
  show ?case by (simp add: insert_missing_comma.simps)
next
  case (2 bs c cs)
  show ?case
  proof (cases "lookbehind_passed bs \<and> matches_reason (c # cs)")
    case True
    then show ?thesis
      using "2.IH"(1) [OF True refl] comma_at_match [of bs c cs]
      by (simp add: insert_missing_comma.simps Let_def)
  next
    case False
    then show ?thesis
      using "2.IH"(2) [OF False] by (auto simp: insert_missing_comma.simps)
  qed
qed

lemma comma_at_no_site:
  assumes "\<And>u v. s = u @ v \<Longrightarrow> v \<noteq> [] \<Longrightarrow> \<not> (lookbehind_passed (rev u @ bs) \<and> matches_reason v)"
  shows "comma_at_each_site bs s = s"
  using assms
proof (induction s arbitrary: bs)
  case Nil
  show ?case by simp
next
  case (Cons c cs)
  have here: "\<not> (lookbehind_passed bs \<and> matches_reason (c # cs))"
    using Cons.prems [of "[]" "c # cs"] by simp
  have "comma_at_each_site (c # bs) cs = cs"
  proof (rule Cons.IH)
    fix u v assume "cs = u @ v" "v \<noteq> []"
    then show "\<not> (lookbehind_passed (rev u @ c # bs) \<and> matches_reason v)"
      using Cons.prems [of "c # u" v] by simp
  qed
  with here show ?case by auto
qed

section \<open>Facts about fences, trimming and slicing\<close>

lemma prefix_before_foreign:
  "c \<notin> set p \<Longrightarrow> prefix p (xs @ c # ys) \<longleftrightarrow> prefix p xs"
  by (auto simp: prefix_append prefix_Cons)

lemma fence_open_eq: "fence_open = [96, 96, 96, 106, 115, 111, 110]"
  by (simp add: fence_open_def js_def)

lemma fence_close_eq: "fence_close = [96, 96, 96]"
  by (simp add: fence_close_def js_def)

lemma skip_optional_newline_append:
  "c \<noteq> 10 \<Longrightarrow> skip_optional_newline (xs @ c # ys) = skip_optional_newline xs @ c # ys"
  by (cases xs) (simp_all add: skip_optional_newline_def)

lemma remove_fence_open_split:
  assumes "c \<notin> set fence_open" and "c \<noteq> 10"
  shows "remove_fence_open (xs @ c # ys) = remove_fence_open xs @ c # remove_fence_open ys"
proof (induction xs rule: remove_fence_open.induct)
  case 1
  have "\<not> prefix fence_open (c # ys)" using assms(1) by (auto simp: fence_open_eq)
  then show ?case by (simp add: remove_fence_open.simps)
next
  case (2 x xs)
  have pre: "prefix fence_open ((x # xs) @ c # ys) \<longleftrightarrow> prefix fence_open (x # xs)"
    using assms(1) by (rule prefix_before_foreign)
  show ?case
  proof (cases "prefix fence_open (x # xs)")
    case True
    then have len: "length fence_open \<le> length (x # xs)" by (rule prefix_length_le)
    have "drop n (z @ c # ys) = drop n z @ c # ys" if "n \<le> length z" for n and z :: jsstring
      using that by simp
    from this [OF len]
    have d: "drop (length fence_open) ((x # xs) @ c # ys) = drop (length fence_open) (x # xs) @ c # ys" .
    have "skip_optional_newline (drop (length fence_open) ((x # xs) @ c # ys))
        = skip_optional_newline (drop (length fence_open) (x # xs)) @ c # ys"
      unfolding d by (rule skip_optional_newline_append [OF assms(2)])
    then show ?thesis
      using True pre "2.IH"(1) [OF True]
      by (simp add: remove_fence_open.simps del: drop_append)
  next
    case False
    then show ?thesis
      using pre "2.IH"(2) [OF False] by (simp add: remove_fence_open.simps)
  qed
qed

lemma remove_fence_open_none:
  assumes "\<not> sublist fence_open xs" and "c \<notin> set fence_open"
  shows "remove_fence_open (xs @ c # ys) = xs @ c # remove_fence_open ys"
  using assms(1)
proof (induction xs)
  case Nil
  have "\<not> prefix fence_open (c # ys)" using assms(2) by (auto simp: fence_open_eq)
  then show ?case by (simp add: remove_fence_open.simps)
next
  case (Cons x xs)
  have "\<not> prefix fence_open (x # xs)" using Cons.prems by auto
  then have "\<not> prefix fence_open ((x # xs) @ c # ys)"
    using prefix_before_foreign [OF assms(2)] by blast
  moreover have "\<not> sublist fence_open xs" using Cons.prems by (auto simp: sublist_Cons_right)
  ultimately show ?case using Cons.IH by (simp add: remove_fence_open.simps)
qed

lemma set_skip_optional_newline: "set (skip_optional_newline s) \<subseteq> set s"
  by (auto simp: skip_optional_newline_def split: list.splits if_splits)

lemma set_remove_fence_open: "set (remove_fence_open s) \<subseteq> set s"
proof (induction s rule: remove_fence_open.induct)
  case 1
  show ?case by (simp add: remove_fence_open.simps)
next
  case (2 c cs)
  show ?case
  proof (cases "prefix fence_open (c # cs)")
    case True
    have "set (skip_optional_newline (drop (length fence_open) (c # cs))) \<subseteq> set (c # cs)"
      using set_skip_optional_newline set_drop_subset by fast
    then show ?thesis using True "2.IH"(1) [OF True]
      by (auto simp: remove_fence_open.simps)
  next
    case False
    then show ?thesis using "2.IH"(2) [OF False] by (auto simp: remove_fence_open.simps)
  qed
qed

lemma set_remove_fence_close: "set (remove_fence_close s) \<subseteq> set s"
  by (auto simp: remove_fence_close_def dest: in_set_takeD)

lemma set_trim: "set (trim s) \<subseteq> set s"
  by (auto simp: trim_def dest!: set_dropWhileD)

lemma set_strip_fences: "set (strip_fences s) \<subseteq> set s"
  using set_trim set_remove_fence_close set_remove_fence_open
  unfolding strip_fences_def by fast

lemma remove_fence_close_split:
  assumes "c \<noteq> 96"
  shows "remove_fence_close (xs @ c # ys) = xs @ c # remove_fence_close ys"
proof -
  have "c \<notin> set (rev fence_close)" using assms by (simp add: fence_close_eq)
  then have s: "suffix fence_close (xs @ c # ys) \<longleftrightarrow> suffix fence_close ys"
    using prefix_before_foreign [of c "rev fence_close" "rev ys" "rev xs"]
    by (simp add: suffix_to_prefix)
  show ?thesis
  proof (cases "suffix fence_close ys")
    case True
    then have "length fence_close \<le> length ys" by (rule suffix_length_le)
    then show ?thesis using True s by (simp add: remove_fence_close_def Suc_diff_le)
  next
    case False
    then show ?thesis using s by (simp add: remove_fence_close_def)
  qed
qed

lemma dropWhile_before_kept:
  "\<not> P c \<Longrightarrow> dropWhile P (xs @ c # ys) = dropWhile P xs @ c # ys"
  by (induction xs) simp_all

lemma trim_around:
  assumes "\<not> is_js_space c" and "\<not> is_js_space d"
  shows "trim (xs @ c # m @ d # ys) =
           dropWhile is_js_space xs @ c # m @ d # rev (dropWhile is_js_space (rev ys))"
proof -
  have "dropWhile is_js_space (xs @ c # m @ d # ys) = dropWhile is_js_space xs @ c # m @ d # ys"
    using assms(1) by (rule dropWhile_before_kept)
  moreover have "dropWhile is_js_space (rev ys @ d # rev m @ c # rev (dropWhile is_js_space xs))
      = dropWhile is_js_space (rev ys) @ d # rev m @ c # rev (dropWhile is_js_space xs)"
    using assms(2) by (rule dropWhile_before_kept)
  ultimately show ?thesis by (simp add: trim_def)
qed

lemma slice_object:
  fixes A M B :: jsstring
  assumes "123 \<notin> set A" and "125 \<notin> set B"
  defines "T \<equiv> A @ 123 # M @ 125 # B"
  shows "indexOf 123 T = int (length A)"
    and "lastIndexOf 125 T = int (length A + length M + 1)"
    and "substring (indexOf 123 T) (lastIndexOf 125 T + 1) T = 123 # M @ [125]"
    and "substring (int (length A)) (int (length A + length M + 1) + 1) T = 123 # M @ [125]"
proof -
  show i: "indexOf 123 T = int (length A)"
    using assms(1) by (simp add: T_def indexOf_first)
  show l: "lastIndexOf 125 T = int (length A + length M + 1)"
    using indexOf_last [OF assms(2), of "A @ 123 # M"] by (simp add: T_def)
  have e1: "lastIndexOf 125 T + 1 = int (length A + length (123 # M @ [125]))"
    by (simp add: l)
  have e2: "T = A @ (123 # M @ [125]) @ B"
    by (simp add: T_def)
  show r: "substring (indexOf 123 T) (lastIndexOf 125 T + 1) T = 123 # M @ [125]"
    unfolding i e1 by (subst e2) (rule substring_between)
  show "substring (int (length A)) (int (length A + length M + 1) + 1) T = 123 # M @ [125]"
    using r unfolding i l .
qed

section \<open>The documented reply through the interpreter\<close>

lemma hex_value_quote: "hex_value 34 = None"
  by (simp add: hex_value_def)

lemma body_no_reason_key:
  "string_body b x \<Longrightarrow> suffix v (b @ [34, 125]) \<Longrightarrow> \<not> prefix reason_key v"
proof (induction arbitrary: v rule: string_body.induct)
  case Empty
  then show ?case by (auto simp: suffix_Cons reason_key_eq)
next
  case (Plain c b x)
  then show ?case by (auto simp: suffix_Cons reason_key_eq)
next
  case (Escape e u b x)
  have "\<not> prefix reason_key (e # b @ [34, 125])"
  proof
    assume "prefix reason_key (e # b @ [34, 125])"
    then have "prefix ([114, 101, 97, 115, 111, 110] @ [34, 58]) (b @ [34, 125])"
      by (simp add: reason_key_eq)
    from string_body_quote_then [OF Escape.hyps(2) _ this] show False by simp
  qed
  then show ?case using Escape by (auto simp: suffix_Cons reason_key_eq)
next
  case (Unicode h1 d1 h2 d2 h3 d3 h4 d4 b x)
  then show ?case by (auto simp: suffix_Cons reason_key_eq hex_value_quote)
qed

lemma body_no_site:
  assumes "string_body b x" and "b @ [34, 125] = u @ v"
  shows "\<not> matches_reason v"
proof -
  have "suffix (dropWhile is_js_space v) v" by (rule suffix_dropWhile)
  moreover have "suffix v (b @ [34, 125])" using assms(2) by (simp add: suffix_def)
  ultimately have "suffix (dropWhile is_js_space v) (b @ [34, 125])" by (rule suffix_order.trans)
  from body_no_reason_key [OF assms(1) this] show ?thesis by (simp add: matches_reason_def)
qed

lemma comma_at_body:
  assumes "string_body b x"
  shows "comma_at_each_site bs (b @ [34, 125]) = b @ [34, 125]"
  by (rule comma_at_no_site) (use body_no_site [OF assms] in blast)

lemma comma_at_verdict_text:
  assumes "string_body b x"
  shows "comma_at_each_site [] (verdict_text t b) = verdict_text t b"
proof -
  have "comma_at_each_site [] (verdict_text t b)
      = js ''{\"passed\": '' @ (if t then js ''true'' else js ''false'') @ js '', \"reason\": \"''
          @ comma_at_each_site
              (rev (js ''{\"passed\": '' @ (if t then js ''true'' else js ''false'') @ js '', \"reason\": \"''))
              (b @ [34, 125])"
    by (cases t)
       (simp_all add: verdict_text_def js_def lookbehind_passed_eq matches_reason_def reason_key_eq
          is_js_space_def)
  then show ?thesis
    by (simp add: comma_at_body [OF assms] verdict_text_def js_def)
qed

lemma sublist_skip_foreign_front:
  assumes "p \<noteq> []" and "hd p \<notin> set ys" and "sublist p (ys @ zs)"
  shows "sublist p zs"
  using assms(2,3)
proof (induction ys)
  case Nil
  then show ?case by simp
next
  case (Cons y ys)
  have "\<not> prefix p (y # ys @ zs)"
    using Cons.prems(1) assms(1) by (cases p) auto
  then have "sublist p (ys @ zs)" using Cons.prems(2) by (simp add: sublist_Cons_right)
  then show ?case using Cons.IH Cons.prems(1) by simp
qed

lemma sublist_skip_foreign_back:
  assumes "p \<noteq> []" and "last p \<notin> set zs" and "sublist p (ys @ zs)"
  shows "sublist p ys"
proof -
  have "sublist (rev p) (rev zs @ rev ys)" using assms(3) sublist_rev [of p "ys @ zs"] by simp
  moreover have "hd (rev p) \<notin> set (rev zs)" using assms(1,2) by (simp add: hd_rev)
  ultimately have "sublist (rev p) (rev ys)"
    using sublist_skip_foreign_front [of "rev p" "rev zs" "rev ys"] assms(1) by simp
  then show ?thesis by simp
qed

lemma verdict_text_middle: "verdict_text t b = 123 # verdict_middle t b @ [125]"
  by (simp add: verdict_text_def verdict_middle_def js_def)

lemma no_fence_in_middle:
  assumes "\<not> sublist fence_open b"
  shows "\<not> sublist fence_open (verdict_middle t b)"
proof
  assume a: "sublist fence_open (verdict_middle t b)"
  let ?P = "js ''\"passed\": '' @ (if t then js ''true'' else js ''false'') @ js '', \"reason\": \"''"
  have m: "verdict_middle t b = ?P @ (b @ [34])" by (simp add: verdict_middle_def)
  have "hd fence_open \<notin> set ?P" by (simp add: fence_open_eq js_def)
  moreover have "fence_open \<noteq> []" by (simp add: fence_open_eq)
  moreover have "sublist fence_open (?P @ (b @ [34]))" using a unfolding m .
  ultimately have "sublist fence_open (b @ [34])"
    using sublist_skip_foreign_front [of fence_open ?P "b @ [34]"] by blast
  moreover have "last fence_open \<notin> set [34]" by (simp add: fence_open_eq)
  moreover have "fence_open \<noteq> []" by (simp add: fence_open_eq)
  ultimately have "sublist fence_open b"
    using sublist_skip_foreign_back [of fence_open "[34]" b] by blast
  with assms show False by simp
qed

lemma strip_fences_around_verdict:
  assumes "\<not> sublist fence_open b"
  shows "\<exists>A B. strip_fences (lead @ verdict_text t b @ trail) = A @ verdict_text t b @ B
           \<and> set A \<subseteq> set lead \<and> set B \<subseteq> set trail"
proof -
  let ?M = "verdict_middle t b"
  have open_fence: "remove_fence_open (lead @ 123 # ?M @ 125 # trail)
      = remove_fence_open lead @ 123 # ?M @ 125 # remove_fence_open trail"
    using remove_fence_open_split [of 123 lead "?M @ 125 # trail"]
      remove_fence_open_none [OF no_fence_in_middle [OF assms], of 125 t trail]
    by (simp add: fence_open_eq)
  have close_fence: "remove_fence_close (remove_fence_open lead @ 123 # ?M @ 125 # remove_fence_open trail)
      = remove_fence_open lead @ 123 # ?M @ 125 # remove_fence_close (remove_fence_open trail)"
    using remove_fence_close_split [of 125 "remove_fence_open lead @ 123 # ?M" "remove_fence_open trail"]
    by simp
  let ?A = "dropWhile is_js_space (remove_fence_open lead)"
  let ?B = "rev (dropWhile is_js_space (rev (remove_fence_close (remove_fence_open trail))))"
  have "strip_fences (lead @ verdict_text t b @ trail) = ?A @ verdict_text t b @ ?B"
    using trim_around [of 123 125 "remove_fence_open lead" ?M "remove_fence_close (remove_fence_open trail)"]
    by (simp add: strip_fences_def verdict_text_middle open_fence close_fence is_js_space_def)
  moreover have "set ?A \<subseteq> set lead"
    using set_remove_fence_open [of lead] by (auto dest: set_dropWhileD)
  moreover have "set ?B \<subseteq> set trail"
    using set_remove_fence_open [of trail] set_remove_fence_close [of "remove_fence_open trail"]
    by (auto dest!: set_dropWhileD)
  ultimately show ?thesis by blast
qed

lemma flatten_newlines_id: "10 \<notin> set s \<Longrightarrow> 13 \<notin> set s \<Longrightarrow> flatten_newlines s = s"
  by (induction s) (auto simp: flatten_newlines_def)

lemma flatten_verdict_text:
  assumes "string_body b x"
  shows "flatten_newlines (verdict_text t b) = verdict_text t b"
proof -
  have "10 \<notin> set b" "13 \<notin> set b" using string_body_chars [OF assms] by fastforce+
  then show ?thesis
    by (intro flatten_newlines_id) (auto simp: verdict_text_def js_def)
qed

lemma clean_response_of_stripped:
  assumes "strip_fences s = A @ verdict_text t b @ B"
      and "123 \<notin> set A" and "125 \<notin> set B" and "string_body b x"
  shows "clean_response s = Inr (verdict_text t b)"
proof -
  let ?T = "A @ 123 # verdict_middle t b @ 125 # B"
  have T: "strip_fences s = ?T"
    using assms(1) by (simp add: verdict_text_middle)
  note sl = slice_object [OF assms(2,3), of "verdict_middle t b"]
  have "clean_response s = Inr (insert_missing_comma [] (flatten_newlines (verdict_text t b)))"
    unfolding clean_response_def T Let_def sl by (simp add: verdict_text_middle)
  then show ?thesis
    by (simp add: flatten_verdict_text [OF assms(4)] insert_missing_comma_eq
          comma_at_verdict_text [OF assms(4)])
qed

lemma JSON_parse_from_fuel:
  assumes "parse_value n (skip_ws s) = Inr (v, rest)" and "n \<le> 2 * length s + 2"
      and "skip_ws rest = []"
  shows "JSON_parse s = Inr v"
proof -
  have "parse_value (2 * length s + 2) (skip_ws s) = parse_value n (skip_ws s)"
    using assms(1,2) by (intro fuel_mono(1)) simp_all
  then show ?thesis using assms(1,3) by (simp add: JSON_parse_def)
qed

lemma JSON_parse_error_from_fuel:
  assumes "parse_value n (skip_ws s) = Inl SyntaxErr" and "n \<le> 2 * length s + 2"
  shows "JSON_parse s = Inl SyntaxErr"
proof -
  have "parse_value (2 * length s + 2) (skip_ws s) = parse_value n (skip_ws s)"
    using assms by (intro fuel_mono(1)) simp_all
  then show ?thesis using assms(1) by (simp add: JSON_parse_def)
qed

lemma JSON_parse_trailing_from_fuel:
  assumes "parse_value n (skip_ws s) = Inr (v, rest)" and "n \<le> 2 * length s + 2"
      and "skip_ws rest \<noteq> []"
  shows "JSON_parse s = Inl SyntaxErr"
proof -
  have "parse_value (2 * length s + 2) (skip_ws s) = parse_value n (skip_ws s)"
    using assms(1,2) by (intro fuel_mono(1)) simp_all
  then show ?thesis using assms(1,3) by (simp add: JSON_parse_def)
qed

lemma parse_verdict_text:
  assumes "string_body b x"
  shows "parse_value (Suc (Suc (Suc (Suc 0)))) (verdict_text t b)
           = Inr (JObject [(js ''passed'', JBool t), (js ''reason'', JString x)], [])"
  using string_body_parse [OF assms]
  by (cases t)
     (simp_all add: verdict_text_def js_def parse_value_Suc parse_members_Suc skip_ws_def
        is_json_ws_def)

lemma JSON_parse_verdict_text:
  assumes "string_body b x"
  shows "JSON_parse (verdict_text t b) = Inr (JObject [(js ''passed'', JBool t), (js ''reason'', JString x)])"
proof -
  have s: "skip_ws (verdict_text t b) = verdict_text t b"
    by (simp add: verdict_text_middle skip_ws_brace)
  have p: "parse_value (Suc (Suc (Suc (Suc 0)))) (skip_ws (verdict_text t b))
      = Inr (JObject [(js ''passed'', JBool t), (js ''reason'', JString x)], [])"
    unfolding s by (rule parse_verdict_text [OF assms])
  have n: "Suc (Suc (Suc (Suc 0))) \<le> 2 * length (verdict_text t b) + 2"
    by (simp add: verdict_text_middle)
  have r: "skip_ws [] = []" by (simp add: skip_ws_def)
  show ?thesis by (rule JSON_parse_from_fuel [OF p n r])
qed

lemma interpret_of_stripped:
  assumes "strip_fences s = A @ verdict_text t b @ B"
      and "123 \<notin> set A" and "125 \<notin> set B" and "string_body b x"
  shows "interpretAIJsonResponse eng s = \<lparr>passed = t, reason = x\<rparr>"
proof -
  have "interpret_try s = Inr \<lparr>passed = t, reason = x\<rparr>"
    by (rule interpret_try_verdict
          [OF clean_response_of_stripped [OF assms] JSON_parse_verdict_text [OF assms(4)]])
       (simp_all add: js_def)
  then show ?thesis by (simp add: interpretAIJsonResponse_def)
qed

lemma remove_fence_open_no_backtick: "96 \<notin> set s \<Longrightarrow> remove_fence_open s = s"
proof (induction s)
  case Nil
  show ?case by (simp add: remove_fence_open.simps)
next
  case (Cons c cs)
  then have "\<not> prefix fence_open (c # cs)" by (auto simp: fence_open_eq)
  then show ?case using Cons by (simp add: remove_fence_open.simps)
qed

lemma remove_fence_close_no_backtick: "96 \<notin> set s \<Longrightarrow> remove_fence_close s = s"
  by (auto simp: remove_fence_close_def fence_close_eq suffix_def)

lemma trim_braced: "trim (123 # M @ [125]) = 123 # M @ [125]"
  using trim_around [of 123 125 "[]" M "[]"] by (simp add: is_js_space_def)

lemma clean_response_braced:
  assumes "96 \<notin> set M"
  shows "clean_response (123 # M @ [125])
           = Inr (comma_at_each_site [] (flatten_newlines (123 # M @ [125])))"
proof -
  have strip: "strip_fences (123 # M @ [125]) = [] @ 123 # M @ 125 # []"
    using assms
    by (simp add: strip_fences_def remove_fence_open_no_backtick remove_fence_close_no_backtick
          trim_braced)
  note sl = slice_object [of "[]" "[]" M, simplified]
  show ?thesis
    unfolding clean_response_def strip Let_def
    by (simp add: sl insert_missing_comma_eq)
qed

section \<open>The fuel of the parser suffices\<close>

lemma parse_digits_shorter: "parse_digits s = Some (d, r) \<Longrightarrow> length r \<le> length s"
  by (auto simp: parse_digits_def Let_def length_dropWhile_le split: if_splits)

lemma parse_int_part_shorter: "parse_int_part s = Some (d, r) \<Longrightarrow> length r < length s"
proof (cases s)
  case Nil
  assume "parse_int_part s = Some (d, r)"
  with Nil show ?thesis by (simp add: parse_int_part_def)
next
  case (Cons c cs)
  assume a: "parse_int_part s = Some (d, r)"
  have "length (dropWhile is_digit cs) \<le> length cs" by (rule length_dropWhile_le)
  with a Cons show ?thesis
    by (auto simp: parse_int_part_def split: if_splits)
qed

lemma parse_fraction_shorter: "parse_fraction s = Some (d, r) \<Longrightarrow> length r \<le> length s"
  by (cases s) (auto simp: parse_fraction_def split: if_splits option.splits
        dest!: parse_digits_shorter)

lemma parse_exponent_shorter: "parse_exponent s = Some (d, r) \<Longrightarrow> length r \<le> length s"
  by (cases s) (auto simp: parse_exponent_def split: if_splits option.splits list.splits
        dest!: parse_digits_shorter)

lemma parse_number_shorter: "parse_number s = Some (x, r) \<Longrightarrow> length r < length s"
proof -
  assume a: "parse_number s = Some (x, r)"
  define s1 where "s1 = (case s of c # cs \<Rightarrow> if c = 45 then cs else s | [] \<Rightarrow> s)"
  have s1: "length s1 \<le> length s" by (auto simp: s1_def split: list.splits)
  from a obtain ip s2 fp s3 ep where "parse_int_part s1 = Some (ip, s2)"
    "parse_fraction s2 = Some (fp, s3)" "parse_exponent s3 = Some (ep, r)"
    by (auto simp: parse_number_def s1_def split: list.splits if_splits option.splits)
  then show ?thesis
    using s1 parse_int_part_shorter parse_fraction_shorter parse_exponent_shorter
    by (metis le_trans less_le_trans not_less)
qed

lemma literal_shorter: "s \<noteq> [] \<Longrightarrow> 0 < k \<Longrightarrow> length (drop k s) < length s"
  by (cases s) auto

lemma parser_shorter:
  "(\<forall>s v r. parse_value n s = Inr (v, r) \<longrightarrow> length r < length s)
   \<and> (\<forall>s vs r. parse_elements n s = Inr (vs, r) \<longrightarrow> length r < length s)
   \<and> (\<forall>s ms r. parse_members n s = Inr (ms, r) \<longrightarrow> length r < length s)"
proof (induction n)
  case 0
  show ?case by simp
next
  case (Suc n)
  have v: "length r < length s" if "parse_value n s = Inr (v, r)" for s v r
    using Suc that by blast
  have e: "length r < length s" if "parse_elements n s = Inr (vs, r)" for s vs r
    using Suc that by blast
  have m: "length r < length s" if "parse_members n s = Inr (ms, r)" for s ms r
    using Suc that by blast
  have V: "length r < length s" if h: "parse_value (Suc n) s = Inr (v, r)" for s v r
  proof (cases s)
    case Nil
    then show ?thesis using h by (simp add: parse_value_Suc)
  next
    case (Cons c cs)
    consider (obj) "c = 123" | (arr) "c \<noteq> 123" "c = 91" | (str) "c \<noteq> 123" "c \<noteq> 91" "c = 34"
      | (other) "c \<noteq> 123" "c \<noteq> 91" "c \<noteq> 34" by blast
    then show ?thesis
    proof cases
      case obj
      then show ?thesis using h Cons
        by (auto simp: parse_value_Suc split: list.splits if_splits sum.splits
              dest!: m skip_ws_Cons_length)
    next
      case arr
      then show ?thesis using h Cons
        by (auto simp: parse_value_Suc split: list.splits if_splits sum.splits
              dest!: e skip_ws_Cons_length)
    next
      case str
      then show ?thesis using h Cons
        by (auto simp: parse_value_Suc split: option.splits dest!: parse_string_body_shorter)
    next
      case other
      then show ?thesis using h Cons literal_shorter [of s]
        by (auto simp: parse_value_Suc split: if_splits option.splits dest!: parse_number_shorter)
    qed
  qed
  have E: "length r < length s" if h: "parse_elements (Suc n) s = Inr (vs, r)" for s vs r
  proof -
    from h obtain x rest d ds where x: "parse_value n (skip_ws s) = Inr (x, rest)"
      and d: "skip_ws rest = d # ds"
      and r: "(d = 44 \<and> (\<exists>vs'. parse_elements n ds = Inr (vs', r))) \<or> (d = 93 \<and> r = ds)"
      by (auto simp: parse_elements_Suc split: sum.splits list.splits if_splits)
    have "length rest < length s" using v [OF x] length_skip_ws [of s] by simp
    moreover have "length ds < length rest" using skip_ws_Cons_length [OF d] .
    moreover have "length r \<le> length ds" using r e by (auto simp: less_imp_le)
    ultimately show ?thesis by simp
  qed
  have M: "length r < length s" if h: "parse_members (Suc n) s = Inr (ms, r)" for s ms r
  proof -
    from h obtain qs key r1 r2 x r3 d ds where q: "skip_ws s = 34 # qs"
      and k: "parse_string_body qs = Some (key, r1)" and c: "skip_ws r1 = 58 # r2"
      and x: "parse_value n (skip_ws r2) = Inr (x, r3)" and d: "skip_ws r3 = d # ds"
      and r: "(d = 44 \<and> (\<exists>ms'. parse_members n ds = Inr (ms', r))) \<or> (d = 125 \<and> r = ds)"
      by (auto simp: parse_members_Suc split: sum.splits list.splits if_splits option.splits)
    have "length qs < length s" using skip_ws_Cons_length [OF q] .
    moreover have "length r1 < length qs" using parse_string_body_shorter [OF k] .
    moreover have "length r2 < length r1" using skip_ws_Cons_length [OF c] .
    moreover have "length r3 < length r2" using v [OF x] length_skip_ws [of r2] by simp
    moreover have "length ds < length r3" using skip_ws_Cons_length [OF d] .
    moreover have "length r \<le> length ds" using r m by (auto simp: less_imp_le)
    ultimately show ?thesis by simp
  qed
  show ?case using V E M by blast
qed

lemma parse_value_shorter: "parse_value n s = Inr (v, r) \<Longrightarrow> length r < length s"
  and parse_elements_shorter: "parse_elements n s = Inr (vs, r) \<Longrightarrow> length r < length s"
  and parse_members_shorter: "parse_members n s = Inr (ms, r) \<Longrightarrow> length r < length s"
  using parser_shorter [of n] by blast+

lemma fuel_enough:
  "(\<forall>s. 2 * length s < n \<longrightarrow> parse_value n s \<noteq> Inl OutOfFuel)
   \<and> (\<forall>s. 2 * length s + 1 < n \<longrightarrow> parse_elements n s \<noteq> Inl OutOfFuel)
   \<and> (\<forall>s. 2 * length s + 1 < n \<longrightarrow> parse_members n s \<noteq> Inl OutOfFuel)"
proof (induction n)
  case 0
  show ?case by simp
next
  case (Suc n)
  have v: "parse_value n s \<noteq> Inl OutOfFuel" if "2 * length s < n" for s
    using Suc that by blast
  have e: "parse_elements n s \<noteq> Inl OutOfFuel" if "2 * length s + 1 < n" for s
    using Suc that by blast
  have m: "parse_members n s \<noteq> Inl OutOfFuel" if "2 * length s + 1 < n" for s
    using Suc that by blast
  have V: "parse_value (Suc n) s \<noteq> Inl OutOfFuel" if h: "2 * length s < Suc n" for s
  proof
    assume a: "parse_value (Suc n) s = Inl OutOfFuel"
    then obtain c cs d ds where s: "s = c # cs" and d: "skip_ws cs = d # ds"
      and "parse_members n (d # ds) = Inl OutOfFuel \<or> parse_elements n (d # ds) = Inl OutOfFuel"
      by (auto simp: parse_value_Suc split: list.splits if_splits sum.splits option.splits)
    moreover have "2 * length (d # ds) + 1 < n"
      using length_skip_ws [of cs] h unfolding s d by simp
    ultimately show False using m e by blast
  qed
  have E: "parse_elements (Suc n) s \<noteq> Inl OutOfFuel" if h: "2 * length s + 1 < Suc n" for s
  proof
    assume a: "parse_elements (Suc n) s = Inl OutOfFuel"
    then consider "parse_value n (skip_ws s) = Inl OutOfFuel"
      | x rest ds where "parse_value n (skip_ws s) = Inr (x, rest)" "skip_ws rest = 44 # ds"
          "parse_elements n ds = Inl OutOfFuel"
      by (auto simp: parse_elements_Suc split: list.splits if_splits sum.splits)
    then show False
    proof cases
      case 1
      then show False using v [of "skip_ws s"] length_skip_ws [of s] h by simp
    next
      case (2 x rest ds)
      have "length rest < length s"
        using parse_value_shorter [OF 2(1)] length_skip_ws [of s] by simp
      moreover have "length ds < length rest" using skip_ws_Cons_length [OF 2(2)] .
      ultimately have "2 * length ds + 1 < n" using h by simp
      then show False using e 2(3) by blast
    qed
  qed
  have M: "parse_members (Suc n) s \<noteq> Inl OutOfFuel" if h: "2 * length s + 1 < Suc n" for s
  proof
    assume a: "parse_members (Suc n) s = Inl OutOfFuel"
    then obtain qs key r1 r2 where q: "skip_ws s = 34 # qs"
      and k: "parse_string_body qs = Some (key, r1)" and c: "skip_ws r1 = 58 # r2"
      and alt: "parse_value n (skip_ws r2) = Inl OutOfFuel
        \<or> (\<exists>x r3 ds. parse_value n (skip_ws r2) = Inr (x, r3) \<and> skip_ws r3 = 44 # ds
              \<and> parse_members n ds = Inl OutOfFuel)"
      by (auto simp: parse_members_Suc split: list.splits if_splits sum.splits option.splits)
    have "length qs < length s" using skip_ws_Cons_length [OF q] .
    moreover have "length r1 < length qs" using parse_string_body_shorter [OF k] .
    moreover have "length r2 < length r1" using skip_ws_Cons_length [OF c] .
    ultimately have r2: "length (skip_ws r2) + 3 \<le> length s" using length_skip_ws [of r2] by simp
    from alt show False
    proof
      assume "parse_value n (skip_ws r2) = Inl OutOfFuel"
      then show False using v [of "skip_ws r2"] r2 h by simp
    next
      assume "\<exists>x r3 ds. parse_value n (skip_ws r2) = Inr (x, r3) \<and> skip_ws r3 = 44 # ds
              \<and> parse_members n ds = Inl OutOfFuel"
      then obtain x r3 ds where x: "parse_value n (skip_ws r2) = Inr (x, r3)"
        and d: "skip_ws r3 = 44 # ds" and o: "parse_members n ds = Inl OutOfFuel" by blast
      have "length ds < length r3" using skip_ws_Cons_length [OF d] .
      moreover have "length r3 < length (skip_ws r2)" using parse_value_shorter [OF x] .
      ultimately have "2 * length ds + 1 < n" using r2 h by simp
      then show False using m o by blast
    qed
  qed
  show ?case using V E M by blast
qed

lemma JSON_parse_never_out_of_fuel: "JSON_parse s \<noteq> Inl OutOfFuel"
proof -
  have "2 * length (skip_ws s) < 2 * length s + 2" using length_skip_ws [of s] by simp
  then have "parse_value (2 * length s + 2) (skip_ws s) \<noteq> Inl OutOfFuel"
    using fuel_enough [of "2 * length s + 2"] by blast
  then show ?thesis
    by (auto simp: JSON_parse_def split: sum.splits)
qed

section \<open>Concrete runs of the interpreter\<close>

lemmas site_eval = lookbehind_passed_eq matches_reason_def reason_key_eq is_js_space_def

lemma clean_ok: "clean_response (js ''{\"ok\": true}'') = Inr (js ''{\"ok\": true}'')"
proof -
  have s: "js ''{\"ok\": true}'' = 123 # js ''\"ok\": true'' @ [125]" by (simp add: js_def)
  show ?thesis
    unfolding s
    by (subst clean_response_braced) (simp_all add: js_def site_eval flatten_newlines_def)
qed

lemma parse_ok: "JSON_parse (js ''{\"ok\": true}'') = Inr (JObject [(js ''ok'', JBool True)])"
proof -
  have p: "parse_value (Suc (Suc (Suc 0))) (skip_ws (js ''{\"ok\": true}''))
      = Inr (JObject [(js ''ok'', JBool True)], [])"
    by (simp add: js_def parse_value_Suc parse_members_Suc skip_ws_def is_json_ws_def)
  show ?thesis
    by (rule JSON_parse_from_fuel [OF p]) (simp_all add: skip_ws_def js_def)
qed

lemma shape_ok: "\<not> has_verdict_shape (JObject [(js ''ok'', JBool True)])"
  by (simp add: has_verdict_shape_def js_def)





lemma strip_fenced_reason:
  "strip_fences (verdict_text True (js ''```json'')) = [] @ verdict_text True [] @ []"
proof -
  have "remove_fence_open (verdict_text True (js ''```json'')) = verdict_text True []"
    by (simp add: verdict_text_def js_def remove_fence_open.simps fence_open_eq
          skip_optional_newline_def)
  moreover have "verdict_text True [] = 123 # verdict_middle True [] @ [125]"
    by (rule verdict_text_middle)
  moreover have "96 \<notin> set (123 # verdict_middle True [] @ [125])"
    by (simp add: verdict_middle_def js_def)
  ultimately show ?thesis
    by (simp add: strip_fences_def remove_fence_close_no_backtick trim_braced)
qed

lemma interpret_fenced_reason:
  "interpretAIJsonResponse eng (verdict_text True (js ''```json'')) = \<lparr>passed = True, reason = []\<rparr>"
  by (rule interpret_of_stripped [OF strip_fenced_reason]) (simp_all add: string_body.Empty)

lemma interpret_braces_in_prose:
  "interpretAIJsonResponse eng (js ''{json}: '' @ verdict_text True (js ''ok''))
     = interpret_catch eng (js ''{json}: '' @ verdict_text True (js ''ok''))
         (SyntaxError (js ''{json}: '' @ verdict_text True (js ''ok'')))"
proof -
  let ?s = "js ''{json}: '' @ verdict_text True (js ''ok'')"
  have s: "?s = 123 # js ''json}: {\"passed\": true, \"reason\": \"ok\"'' @ [125]"
    by (simp add: verdict_text_def js_def)
  have c: "clean_response ?s = Inr ?s"
    unfolding s by (subst clean_response_braced) (simp_all add: js_def site_eval flatten_newlines_def)
  have p: "parse_value (Suc (Suc 0)) (skip_ws ?s) = Inl SyntaxErr"
    unfolding s
    by (simp add: js_def parse_value_Suc parse_members_Suc skip_ws_def is_json_ws_def)
  have "JSON_parse ?s = Inl SyntaxErr"
    by (rule JSON_parse_error_from_fuel [OF p]) simp
  from interpret_try_syntax_error [OF c this] show ?thesis
    by (simp add: interpretAIJsonResponse_def)
qed

lemma interpret_no_braces:
  assumes "123 \<notin> set (strip_fences s) \<or> 125 \<notin> set (strip_fences s)"
  shows "interpretAIJsonResponse eng s =
           \<lparr>passed = False,
            reason = js ''AI response could not be parsed as valid JSON: ''
              @ js ''Could not find valid JSON object delimiters {} in response.''
              @ js '' (Original: '' @ take 100 s @ js ''...)''\<rparr>"
  using clean_response_no_braces [OF assms]
  by (simp add: interpretAIJsonResponse_def interpret_try_def interpret_catch_def
        delimiter_message_def substring_100)

lemma hello_no_braces: "123 \<notin> set (strip_fences (js ''hello''))"
  using set_strip_fences [of "js ''hello''"] by (auto simp: js_def)

section \<open>The verdicts of the interpreter\<close>

lemma interpret_wrong_shape:
  assumes "clean_response s = Inr t" and "JSON_parse t = Inr v" and "\<not> has_verdict_shape v"
  shows "interpretAIJsonResponse eng s =
           \<lparr>passed = False,
            reason = js ''AI response was valid JSON but lacked expected fields: ''
              @ take 200 s @ js ''...''\<rparr>"
proof -
  have "v \<noteq> JNull" using parsed_clean_response_is_object [OF assms(1,2)] by auto
  from interpret_try_wrong_shape [OF assms(1,2) this assms(3)] show ?thesis
    by (simp add: interpretAIJsonResponse_def lacked_fields_prefix_def ellipsis_def substring_200)
qed

lemma interpret_thrown:
  assumes "interpret_try s = Inl e"
  shows "interpretAIJsonResponse eng s = interpret_catch eng s e"
    and "\<not> passed (interpretAIJsonResponse eng s)"
    and "reason (interpretAIJsonResponse eng s) \<noteq> []"
  using assms interpret_catch_reason_nonempty [of eng s e]
  by (simp_all add: interpretAIJsonResponse_def interpret_catch_def)

lemma interpret_passed:
  assumes p: "passed (interpretAIJsonResponse eng s)"
  shows "\<exists>t ms r. clean_response s = Inr t \<and> JSON_parse t = Inr (JObject ms)
           \<and> map_of (rev ms) (js ''passed'') = Some (JBool True)
           \<and> map_of (rev ms) (js ''reason'') = Some (JString r)
           \<and> reason (interpretAIJsonResponse eng s) = r"
proof (cases "clean_response s")
  case (Inl e)
  then show ?thesis using p interpret_thrown(2) [OF interpret_try_no_braces [OF Inl]] by simp
next
  case t: (Inr t)
  show ?thesis
  proof (cases "JSON_parse t")
    case (Inl e)
    then show ?thesis using p interpret_thrown(2) [OF interpret_try_syntax_error [OF t Inl]] by simp
  next
    case v: (Inr v)
    obtain ms where ms: "v = JObject ms" using parsed_clean_response_is_object [OF t v] by blast
    have "has_verdict_shape v"
    proof (rule ccontr)
      assume "\<not> has_verdict_shape v"
      from interpret_wrong_shape [OF t v this, of eng] p show False by simp
    qed
    then obtain b r where b: "get_property v (js ''passed'') = Inr (Some (JBool b))"
      and r: "get_property v (js ''reason'') = Inr (Some (JString r))"
      by (rule has_verdict_shapeD)
    have "interpretAIJsonResponse eng s = \<lparr>passed = b, reason = r\<rparr>"
      using interpret_try_verdict [OF t v b r] by (simp add: interpretAIJsonResponse_def)
    then show ?thesis using p t v b r ms by auto
  qed
qed

lemma interpret_documented_reply:
  assumes body: "parse_string_body (b @ [34]) = Some (x, [])"
      and no_fence: "\<not> sublist fence_open b"
      and lead: "123 \<notin> set lead" and trail: "125 \<notin> set trail"
  shows "interpretAIJsonResponse eng (lead @ verdict_text t b @ trail) = \<lparr>passed = t, reason = x\<rparr>"
proof -
  have sb: "string_body b x" using body by (simp add: string_body_iff)
  obtain A B where st: "strip_fences (lead @ verdict_text t b @ trail) = A @ verdict_text t b @ B"
    and A: "set A \<subseteq> set lead" and B: "set B \<subseteq> set trail"
    using strip_fences_around_verdict [OF no_fence] by blast
  have nA: "123 \<notin> set A" and nB: "125 \<notin> set B" using A B lead trail by auto
  show ?thesis by (rule interpret_of_stripped [OF st nA nB sb])
qed


lemma flatten_newlines_eq:
  "flatten_newlines s = map (\<lambda>c. if c = 10 \<or> c = 13 then 32 else c) s"
  by (simp add: flatten_newlines_def)











text \<open>Valid JSON that is no object with the two fields.\<close>

lemma parse_array_of_one:
  "JSON_parse (js ''[1]'') = Inr (JArray [JNumber (js ''1'')])"
proof -
  have p: "parse_value (Suc (Suc (Suc 0))) (skip_ws (js ''[1]'')) = Inr (JArray [JNumber (js ''1'')], [])"
    by (simp add: js_def parse_value_Suc parse_elements_Suc skip_ws_def is_json_ws_def
          parse_number_def parse_int_part_def parse_fraction_def parse_exponent_def is_digit_def)
  show ?thesis
    by (rule JSON_parse_from_fuel [OF p]) (simp_all add: skip_ws_def js_def)
qed

lemma interpret_array_of_one:
  "interpretAIJsonResponse eng (js ''[1]'') =
     \<lparr>passed = False,
      reason = js ''AI response could not be parsed as valid JSON: Could not find valid JSON object delimiters {} in response. (Original: [1]...)''\<rparr>"
proof -
  have "123 \<notin> set (strip_fences (js ''[1]''))"
    using set_strip_fences [of "js ''[1]''"] by (auto simp: js_def)
  then have "123 \<notin> set (strip_fences (js ''[1]'')) \<or> 125 \<notin> set (strip_fences (js ''[1]''))"
    by simp
  from interpret_no_braces [OF this, of eng] show ?thesis by (simp add: js_def)
qed

lemma parse_array_of_verdict:
  "JSON_parse (js ''[{\"passed\": true, \"reason\": \"ok\"}]'')
     = Inr (JArray [JObject [(js ''passed'', JBool True), (js ''reason'', JString (js ''ok''))]])"
proof -
  have p: "parse_value (Suc (Suc (Suc (Suc (Suc (Suc 0))))))
        (skip_ws (js ''[{\"passed\": true, \"reason\": \"ok\"}]''))
      = Inr (JArray [JObject [(js ''passed'', JBool True), (js ''reason'', JString (js ''ok''))]], [])"
    by (simp add: js_def parse_value_Suc parse_elements_Suc parse_members_Suc skip_ws_def
          is_json_ws_def)
  show ?thesis
    by (rule JSON_parse_from_fuel [OF p]) (simp_all add: skip_ws_def js_def)
qed

lemma interpret_array_of_verdict:
  "interpretAIJsonResponse eng (js ''[{\"passed\": true, \"reason\": \"ok\"}]'')
     = \<lparr>passed = True, reason = js ''ok''\<rparr>"
proof -
  have v: "js ''[{\"passed\": true, \"reason\": \"ok\"}]'' = [91] @ verdict_text True (js ''ok'') @ [93]"
    by (simp add: verdict_text_def js_def)
  show ?thesis
    unfolding v
    by (rule interpret_documented_reply)
       (simp_all add: js_def fence_open_eq sublist_Cons_right unescape_def)
qed

lemma array_has_no_verdict_shape: "\<not> has_verdict_shape (JArray vs)"
  by (simp add: has_verdict_shape_def)

section \<open>Facts about the gateway and the orchestrator\<close>

lemma payload_temperature_multimodal:
  "payload_temperature (multimodal_payload svc request) = or_number (temperature request) (Finite (2 / 10))"
  by (simp add: multimodal_payload_def Let_def split: option.splits)

lemma or_number_truthy: "truthy_number d \<Longrightarrow> truthy_number (or_number x d)"
  by (simp add: or_number_def split: option.splits)

lemma posts_generateMultimodalResponse:
  "posts (snd (generateMultimodalResponse env svc request w))
       = posts w @ [(baseUrl svc @ js ''/generate'', multimodal_payload svc request)]"
  by (simp add: generateMultimodalResponse_def Let_def split: sum.splits)

lemma files_generateMultimodalResponse:
  "files (snd (generateMultimodalResponse env svc request w)) = files w"
  "written (snd (generateMultimodalResponse env svc request w)) = written w"
  by (simp_all add: generateMultimodalResponse_def Let_def split: sum.splits)

lemma gateway_response:
  "fst (generateMultimodalResponse env svc request w) =
     (case post env (baseUrl svc @ js ''/generate'') (multimodal_payload svc request) of
        Inl m \<Rightarrow> \<lparr>response_text = [], success = False, error = Some m\<rparr>
      | Inr t \<Rightarrow> \<lparr>response_text = t, success = True, error = None\<rparr>)"
  by (simp add: generateMultimodalResponse_def Let_def split: sum.splits)

lemma screenshot_path_capture_options:
  "screenshot_path (capture_options env baselineName options) = actual_path env baselineName"
  by (simp add: capture_options_def Let_def split: option.splits)

lemma posts_writeFile: "posts (writeFile p b w) = posts w"
  by (simp add: writeFile_def)

lemma files_writeFile: "files (writeFile p b w) = (files w)(p \<mapsto> b)"
  by (simp add: writeFile_def)

lemma written_writeFile: "written (writeFile p b w) = written w @ [p]"
  by (simp add: writeFile_def)

text \<open>
  Once both directories are there and the screenshot is taken, the orchestrator is the
  branch on the baseline.
\<close>

lemma expect_after_capture:
  assumes "ensureDir env (baselineFolder env) = Inr ()"
      and "ensureDir env (actualFolder env) = Inr ()"
      and "pg (capture_options env baselineName options) = Some img"
  shows "expectPageToMatchVisuallyAI env cfg pg baselineName options w =
           (if updateBaselines options = Some True
               \<or> files (writeFile (actual_path env baselineName) img w) (baseline_path env baselineName) = None
            then (case copyfile env (actual_path env baselineName) (baseline_path env baselineName) of
                    Some code \<Rightarrow> (Inl (CopyError code), writeFile (actual_path env baselineName) img w)
                  | None \<Rightarrow>
                      (Inr \<lparr>passed = True, reason = js ''Baseline created/updated.'',
                            baselinePath = baseline_path env baselineName,
                            actualPath = actual_path env baselineName\<rparr>,
                       writeFile (baseline_path env baselineName) img
                         (writeFile (actual_path env baselineName) img w)))
            else compare_with_baseline env cfg baselineName (base64 env img)
                   (writeFile (actual_path env baselineName) img w))"
  using assms
  by (simp add: expectPageToMatchVisuallyAI_def screenshot_def screenshot_path_capture_options
        readFile_def access_def copyFile_def files_writeFile Let_def split: option.splits)

lemma expect_failure_cases:
  "ensureDir env (baselineFolder env) = Inl e \<Longrightarrow>
     expectPageToMatchVisuallyAI env cfg pg baselineName options w = (Inl e, w)"
  "ensureDir env (baselineFolder env) = Inr u \<Longrightarrow> ensureDir env (actualFolder env) = Inl e \<Longrightarrow>
     expectPageToMatchVisuallyAI env cfg pg baselineName options w = (Inl e, w)"
  "ensureDir env (baselineFolder env) = Inr u \<Longrightarrow> ensureDir env (actualFolder env) = Inr u' \<Longrightarrow>
     pg (capture_options env baselineName options) = None \<Longrightarrow>
     expectPageToMatchVisuallyAI env cfg pg baselineName options w = (Inl ScreenshotError, w)"
  by (simp_all add: expectPageToMatchVisuallyAI_def screenshot_def)

lemma expect_cases:
  obtains e where "expectPageToMatchVisuallyAI env cfg pg baselineName options w = (Inl e, w)"
  | img where "ensureDir env (baselineFolder env) = Inr ()" "ensureDir env (actualFolder env) = Inr ()"
      "pg (capture_options env baselineName options) = Some img"
proof (cases "ensureDir env (baselineFolder env)")
  case (Inl e) then show ?thesis using that(1) expect_failure_cases(1) by blast
next
  case a: (Inr u)
  show ?thesis
  proof (cases "ensureDir env (actualFolder env)")
    case (Inl e) then show ?thesis using that(1) expect_failure_cases(2) a by blast
  next
    case b: (Inr u')
    show ?thesis
    proof (cases "pg (capture_options env baselineName options)")
      case None then show ?thesis using that(1) expect_failure_cases(3) a b by blast
    next
      case (Some img) then show ?thesis using that(2) a b by simp
    qed
  qed
qed

lemma compare_keeps_files:
  "files (snd (compare_with_baseline env cfg baselineName a w)) = files w"
  "written (snd (compare_with_baseline env cfg baselineName a w)) = written w"
  using files_generateMultimodalResponse [of env "llmService cfg"]
  by (auto simp: compare_with_baseline_def Let_def split_beta split: sum.splits)

lemma posts_compare:
  assumes "files w (baseline_path env baselineName) = Some b"
  shows "posts (snd (compare_with_baseline env cfg baselineName a w)) =
           posts w @ [(ollamaBaseUrl cfg @ js ''/generate'',
                       multimodal_payload (llmService cfg) (comparison_request cfg (base64 env b) a))]"
  using assms
    posts_generateMultimodalResponse [of env "llmService cfg" "comparison_request cfg (base64 env b) a" w]
  by (simp add: compare_with_baseline_def readFile_def Let_def split_beta llmService_def
        new_LocalLLMService_def)

lemma compare_when_gateway_fails:
  assumes "files w (baseline_path env baselineName) = Some b"
      and "\<forall>body. post env (ollamaBaseUrl cfg @ js ''/generate'') body = Inl err"
  shows "fst (compare_with_baseline env cfg baselineName a w) =
           Inr \<lparr>passed = False,
                reason = js ''LLM service error during comparison for '' @ baselineName @ js '': '' @ err,
                baselinePath = baseline_path env baselineName,
                actualPath = actual_path env baselineName\<rparr>"
  using assms gateway_response [of env "llmService cfg" "comparison_request cfg (base64 env b) a" w]
  by (simp add: compare_with_baseline_def readFile_def Let_def split_beta llmService_def
        new_LocalLLMService_def)

lemma compare_when_gateway_answers:
  assumes "files w (baseline_path env baselineName) = Some b"
      and "\<forall>body. post env (ollamaBaseUrl cfg @ js ''/generate'') body = Inr reply"
  shows "fst (compare_with_baseline env cfg baselineName a w) =
           Inr \<lparr>passed = passed (interpretAIJsonResponse (engine_messages env) reply),
                reason = reason (interpretAIJsonResponse (engine_messages env) reply),
                baselinePath = baseline_path env baselineName,
                actualPath = actual_path env baselineName\<rparr>"
  using assms gateway_response [of env "llmService cfg" "comparison_request cfg (base64 env b) a" w]
  by (simp add: compare_with_baseline_def readFile_def Let_def split_beta llmService_def
        new_LocalLLMService_def)

lemma sample_run_facts:
  "ensureDir offline_environment (baselineFolder offline_environment) = Inr ()"
  "ensureDir offline_environment (actualFolder offline_environment) = Inr ()"
  "sample_page (capture_options offline_environment (js ''home'') sample_options) = Some [137, 80, 78, 71]"
  "baseline_path offline_environment (js ''home'') = js ''/w/tests/visual-baselines/home.png''"
  "actual_path offline_environment (js ''home'') = js ''/w/test-results/visual-actuals/home.png''"
  "updateBaselines sample_options \<noteq> Some True"
  by (simp_all add: ensureDir_def offline_environment_def sample_page_def baseline_path_def
        actual_path_def sample_options_def posix_join_def posix_normalize_def js_def)

lemma sample_paths_distinct:
  "js ''/w/tests/visual-baselines/home.png'' \<noteq> js ''/w/test-results/visual-actuals/home.png''"
  by (simp add: js_def)

lemma sample_coincident_paths:
  "baseline_path offline_environment (js ''../../test-results/visual-actuals/x'')
     = js ''/w/test-results/visual-actuals/x.png''"
  "actual_path offline_environment (js ''../../test-results/visual-actuals/x'')
     = js ''/w/test-results/visual-actuals/x.png''"
  "baseline_path offline_environment (js ''../../tests/visual-baselines/home'')
     = js ''/w/tests/visual-baselines/home.png''"
  "actual_path offline_environment (js ''../../tests/visual-baselines/home'')
     = js ''/w/tests/visual-baselines/home.png''"
  by (simp_all add: offline_environment_def baseline_path_def actual_path_def posix_join_def
        posix_normalize_def js_def)

lemma sample_subdirectory_paths:
  "baseline_path offline_environment (js ''sub/home'') = js ''/w/tests/visual-baselines/sub/home.png''"
  "actual_path offline_environment (js ''sub/home'') = js ''/w/test-results/visual-actuals/sub/home.png''"
  by (simp_all add: offline_environment_def baseline_path_def actual_path_def posix_join_def
        posix_normalize_def js_def)

lemma sample_copies:
  "copyfile offline_environment (js ''/w/test-results/visual-actuals/home.png'')
     (js ''/w/tests/visual-baselines/home.png'') = None"
  "copyfile offline_environment (js ''/w/test-results/visual-actuals/sub/home.png'')
     (js ''/w/tests/visual-baselines/sub/home.png'') = Some (js ''ENOENT'')"
  by (simp_all add: offline_environment_def posix_dirname_def sample_directories_def js_def)

lemma online_as_offline:
  "baseline_path online_environment = baseline_path offline_environment"
  "actual_path online_environment = actual_path offline_environment"
  "capture_options online_environment = capture_options offline_environment"
  "ensureDir online_environment (baselineFolder online_environment) = Inr ()"
  "ensureDir online_environment (actualFolder online_environment) = Inr ()"
  "engine_messages online_environment = plain_engine"
  "base64 online_environment = base64 offline_environment"
  by (simp_all add: fun_eq_iff baseline_path_def actual_path_def capture_options_def
        online_environment_def offline_environment_def ensureDir_def)

lemma sample_page_always: "sample_page opts = Some [137, 80, 78, 71]"
  by (simp add: sample_page_def)

lemma sample_reply:
  "interpretAIJsonResponse eng (js ''{\"passed\": true, \"reason\": \"ok\"}'')
     = \<lparr>passed = True, reason = js ''ok''\<rparr>"
proof -
  have v: "js ''{\"passed\": true, \"reason\": \"ok\"}'' = [] @ verdict_text True (js ''ok'') @ []"
    by (simp add: verdict_text_def js_def)
  show ?thesis
    unfolding v
    by (rule interpret_documented_reply)
       (simp_all add: js_def fence_open_eq sublist_Cons_right unescape_def)
qed

text \<open>
  When the baseline folder is a regular file, both \<open>ensureDir\<close> calls return, the
  screenshot is taken, and the copy throws.
\<close>

lemma blocked_as_offline:
  "baseline_path blocked_environment = baseline_path offline_environment"
  "actual_path blocked_environment = actual_path offline_environment"
  "ensureDir blocked_environment (baselineFolder blocked_environment) = Inr ()"
  "ensureDir blocked_environment (actualFolder blocked_environment) = Inr ()"
  "copyfile blocked_environment (js ''/w/test-results/visual-actuals/home.png'')
     (js ''/w/tests/visual-baselines/home.png'') = Some (js ''ENOTDIR'')"
  by (simp_all add: fun_eq_iff baseline_path_def actual_path_def blocked_environment_def
        offline_environment_def ensureDir_def posix_dirname_def js_def)

lemma baseline_folder_is_a_file:
  "fst (expectPageToMatchVisuallyAI blocked_environment sample_config sample_page (js ''home'')
        sample_options blocked_world) = Inl (CopyError (js ''ENOTDIR''))"
proof -
  have absent: "files (writeFile (js ''/w/test-results/visual-actuals/home.png'') [137, 80, 78, 71]
      blocked_world) (js ''/w/tests/visual-baselines/home.png'') = None"
    by (simp add: files_writeFile blocked_world_def js_def)
  show ?thesis
    using expect_after_capture [of blocked_environment sample_page "js ''home''" sample_options
        "[137, 80, 78, 71]" sample_config blocked_world] absent
    by (simp add: blocked_as_offline sample_page_always sample_run_facts(4,5))
qed

section \<open>Claims about the orchestrator and the gateway\<close>

text \<open>
  Claim C1, as stated, fails at two inputs. For the name
  \<open>../../test-results/visual-actuals/x\<close> \<open>path.join\<close> gives one file for the baseline
  path and the actual path: no baseline exists before the call, the screenshot is then
  found as the baseline, the backend is called and the verdict carries its reason. For
  the name \<open>sub/home\<close>, in a file system where the baseline folder has no directory
  \<open>sub\<close>, no baseline exists, \<open>fs.copyFile\<close> rejects and the call throws instead of
  returning a verdict.
\<close>

theorem baseline_creation_counterexample:
  "files empty_world (baseline_path online_environment (js ''../../test-results/visual-actuals/x'')) = None
   \<and> fst (expectPageToMatchVisuallyAI online_environment sample_config sample_page
        (js ''../../test-results/visual-actuals/x'') sample_options empty_world)
      = Inr \<lparr>passed = True, reason = js ''ok'',
             baselinePath = js ''/w/test-results/visual-actuals/x.png'',
             actualPath = js ''/w/test-results/visual-actuals/x.png''\<rparr>
   \<and> length (posts (snd (expectPageToMatchVisuallyAI online_environment sample_config sample_page
        (js ''../../test-results/visual-actuals/x'') sample_options empty_world))) = 1
   \<and> files empty_world (baseline_path offline_environment (js ''sub/home'')) = None
   \<and> fst (expectPageToMatchVisuallyAI offline_environment sample_config sample_page
        (js ''sub/home'') sample_options empty_world)
      = Inl (CopyError (js ''ENOENT''))"
proof -
  let ?x = "js ''../../test-results/visual-actuals/x''"
  let ?p = "js ''/w/test-results/visual-actuals/x.png''"
  let ?w1 = "writeFile ?p [137, 80, 78, 71] empty_world"
  have paths: "baseline_path online_environment ?x = ?p" "actual_path online_environment ?x = ?p"
    by (simp_all add: online_as_offline sample_coincident_paths)
  have found: "files ?w1 (baseline_path online_environment ?x) = Some [137, 80, 78, 71]"
    by (simp add: paths files_writeFile)
  have run: "expectPageToMatchVisuallyAI online_environment sample_config sample_page ?x
        sample_options empty_world =
      compare_with_baseline online_environment sample_config ?x
        (base64 online_environment [137, 80, 78, 71]) ?w1"
    using expect_after_capture [of online_environment sample_page ?x sample_options
        "[137, 80, 78, 71]" sample_config empty_world] found
    by (simp add: online_as_offline(4,5) sample_page_always paths sample_run_facts(6))
  have answers: "\<forall>body. post online_environment (ollamaBaseUrl sample_config @ js ''/generate'') body
      = Inr (js ''{\"passed\": true, \"reason\": \"ok\"}'')"
    by (simp add: online_environment_def)
  have verdict: "fst (expectPageToMatchVisuallyAI online_environment sample_config sample_page ?x
        sample_options empty_world)
      = Inr \<lparr>passed = True, reason = js ''ok'', baselinePath = ?p, actualPath = ?p\<rparr>"
    unfolding run compare_when_gateway_answers [OF found answers]
    by (simp add: sample_reply paths)
  have posted: "length (posts (snd (expectPageToMatchVisuallyAI online_environment sample_config
        sample_page ?x sample_options empty_world))) = 1"
    unfolding run posts_compare [OF found]
    by (simp add: posts_writeFile empty_world_def)
  have absent: "files empty_world q = None" for q
    by (simp add: empty_world_def)
  let ?a = "js ''/w/test-results/visual-actuals/sub/home.png''"
  let ?b = "js ''/w/tests/visual-baselines/sub/home.png''"
  have differ: "?b \<noteq> ?a" by (simp add: js_def)
  have "expectPageToMatchVisuallyAI offline_environment sample_config sample_page (js ''sub/home'')
        sample_options empty_world =
      (Inl (CopyError (js ''ENOENT'')), writeFile ?a [137, 80, 78, 71] empty_world)"
    using expect_after_capture [of offline_environment sample_page "js ''sub/home''" sample_options
        "[137, 80, 78, 71]" sample_config empty_world] differ
    by (simp add: sample_run_facts(1,2) sample_page_always sample_subdirectory_paths
          sample_copies files_writeFile absent)
  then have thrown: "fst (expectPageToMatchVisuallyAI offline_environment sample_config sample_page
        (js ''sub/home'') sample_options empty_world) = Inl (CopyError (js ''ENOENT''))"
    by simp
  from verdict posted thrown absent show ?thesis by blast
qed

text \<open>
  Claim C1, amended. Whenever no baseline file exists for the logical name or the caller
  set \<open>updateBaselines = true\<close>, and the baseline path and the actual path name two
  different files, the orchestrator posts nothing to the model backend; every verdict it
  returns has \<open>passed = true\<close> and the reason \<open>Baseline created/updated.\<close>, and
  afterwards the baseline file exists and holds the same bytes as the actual file. The
  verdict is returned whenever both directories can be made, the screenshot is taken and
  the file system accepts the copy to the baseline path; when it refuses the copy, the
  error is thrown and no verdict is returned.
\<close>

theorem baseline_created_or_updated:
  assumes cond: "updateBaselines options = Some True \<or> files w (baseline_path env baselineName) = None"
      and distinct: "baseline_path env baselineName \<noteq> actual_path env baselineName"
  shows "(ensureDir env (baselineFolder env) = Inr () \<and> ensureDir env (actualFolder env) = Inr ()
            \<and> pg (capture_options env baselineName options) = Some img
            \<and> copyfile env (actual_path env baselineName) (baseline_path env baselineName) = None
          \<longrightarrow> expectPageToMatchVisuallyAI env cfg pg baselineName options w =
                (Inr \<lparr>passed = True, reason = js ''Baseline created/updated.'',
                      baselinePath = baseline_path env baselineName,
                      actualPath = actual_path env baselineName\<rparr>,
                 writeFile (baseline_path env baselineName) img
                   (writeFile (actual_path env baselineName) img w)))
       \<and> (ensureDir env (baselineFolder env) = Inr () \<and> ensureDir env (actualFolder env) = Inr ()
            \<and> pg (capture_options env baselineName options) = Some img
            \<and> copyfile env (actual_path env baselineName) (baseline_path env baselineName) = Some code
          \<longrightarrow> fst (expectPageToMatchVisuallyAI env cfg pg baselineName options w)
                = Inl (CopyError code))
       \<and> posts (snd (expectPageToMatchVisuallyAI env cfg pg baselineName options w)) = posts w
       \<and> (\<forall>v. fst (expectPageToMatchVisuallyAI env cfg pg baselineName options w) = Inr v
             \<longrightarrow> passed v \<and> reason v = js ''Baseline created/updated.''
               \<and> files (snd (expectPageToMatchVisuallyAI env cfg pg baselineName options w))
                    (baseline_path env baselineName)
                 = files (snd (expectPageToMatchVisuallyAI env cfg pg baselineName options w))
                    (actual_path env baselineName)
               \<and> files (snd (expectPageToMatchVisuallyAI env cfg pg baselineName options w))
                    (baseline_path env baselineName) \<noteq> None)"
proof -
  let ?b = "baseline_path env baselineName"
  let ?a = "actual_path env baselineName"
  let ?run = "expectPageToMatchVisuallyAI env cfg pg baselineName options w"
  have branch: "updateBaselines options = Some True \<or> files (writeFile ?a i w) ?b = None" for i
    using cond distinct by (auto simp: files_writeFile)
  show ?thesis
  proof (cases rule: expect_cases [of env cfg pg baselineName options w])
    case (1 e)
    then show ?thesis using expect_after_capture [of env pg baselineName options img cfg w] branch
      by (auto split: option.splits)
  next
    case (2 i)
    note after = expect_after_capture [of env pg baselineName options i cfg w, OF 2]
    show ?thesis
    proof (cases "copyfile env ?a ?b")
      case None
      have "?run = (Inr \<lparr>passed = True, reason = js ''Baseline created/updated.'',
                  baselinePath = ?b, actualPath = ?a\<rparr>,
             writeFile ?b i (writeFile ?a i w))"
        using after branch [of i] None by simp
      then show ?thesis using 2 distinct None
        by (simp add: files_writeFile posts_writeFile)
    next
      case (Some c)
      have "?run = (Inl (CopyError c), writeFile ?a i w)"
        using after branch [of i] Some by simp
      then show ?thesis using 2 Some
        by (simp add: posts_writeFile)
    qed
  qed
qed

theorem baseline_created_or_updated_witness:
  "files empty_world (baseline_path offline_environment (js ''home'')) = None
   \<and> baseline_path offline_environment (js ''home'') \<noteq> actual_path offline_environment (js ''home'')
   \<and> ensureDir offline_environment (baselineFolder offline_environment) = Inr ()
   \<and> ensureDir offline_environment (actualFolder offline_environment) = Inr ()
   \<and> copyfile offline_environment (actual_path offline_environment (js ''home''))
        (baseline_path offline_environment (js ''home'')) = None
   \<and> expectPageToMatchVisuallyAI offline_environment sample_config sample_page (js ''home'')
        sample_options empty_world =
      (Inr \<lparr>passed = True, reason = js ''Baseline created/updated.'',
            baselinePath = js ''/w/tests/visual-baselines/home.png'',
            actualPath = js ''/w/test-results/visual-actuals/home.png''\<rparr>,
       writeFile (js ''/w/tests/visual-baselines/home.png'') [137, 80, 78, 71]
         (writeFile (js ''/w/test-results/visual-actuals/home.png'') [137, 80, 78, 71] empty_world))
   \<and> posts (snd (expectPageToMatchVisuallyAI offline_environment sample_config sample_page
        (js ''home'') sample_options empty_world)) = []"
proof -
  have absent: "updateBaselines sample_options = Some True
      \<or> files empty_world (baseline_path offline_environment (js ''home'')) = None"
    by (simp add: empty_world_def)
  have distinct: "baseline_path offline_environment (js ''home'')
      \<noteq> actual_path offline_environment (js ''home'')"
    by (simp add: sample_run_facts sample_paths_distinct)
  have accepted: "copyfile offline_environment (actual_path offline_environment (js ''home''))
        (baseline_path offline_environment (js ''home'')) = None"
    by (simp add: sample_run_facts sample_copies)
  note run = baseline_created_or_updated [OF absent distinct,
      where pg = sample_page and img = "[137, 80, 78, 71]" and cfg = sample_config]
  have result: "expectPageToMatchVisuallyAI offline_environment sample_config sample_page (js ''home'')
        sample_options empty_world =
      (Inr \<lparr>passed = True, reason = js ''Baseline created/updated.'',
            baselinePath = js ''/w/tests/visual-baselines/home.png'',
            actualPath = js ''/w/test-results/visual-actuals/home.png''\<rparr>,
       writeFile (js ''/w/tests/visual-baselines/home.png'') [137, 80, 78, 71]
         (writeFile (js ''/w/test-results/visual-actuals/home.png'') [137, 80, 78, 71] empty_world))"
    using run accepted by (simp add: sample_run_facts)
  have none: "posts (snd (expectPageToMatchVisuallyAI offline_environment sample_config sample_page
        (js ''home'') sample_options empty_world)) = []"
    using run by (simp add: empty_world_def)
  have "files empty_world (baseline_path offline_environment (js ''home'')) = None"
    by (simp add: empty_world_def)
  with distinct accepted result none sample_run_facts(1,2) show ?thesis by blast
qed

text \<open>
  Claim C9, as stated, fails when the two paths are one file: for the name
  \<open>../../tests/visual-baselines/home\<close> \<open>path.join\<close> gives the path of the existing
  baseline for the actual path too, and the screenshot overwrites the baseline although
  no update was requested.
\<close>

theorem existing_baseline_overwritten_counterexample:
  "files seeded_world (baseline_path online_environment (js ''../../tests/visual-baselines/home''))
     = Some [1, 2, 3]
   \<and> updateBaselines sample_options \<noteq> Some True
   \<and> files (snd (expectPageToMatchVisuallyAI online_environment sample_config sample_page
        (js ''../../tests/visual-baselines/home'') sample_options seeded_world))
       (baseline_path online_environment (js ''../../tests/visual-baselines/home''))
     = Some [137, 80, 78, 71]"
proof -
  let ?x = "js ''../../tests/visual-baselines/home''"
  let ?p = "js ''/w/tests/visual-baselines/home.png''"
  let ?w1 = "writeFile ?p [137, 80, 78, 71] seeded_world"
  have paths: "baseline_path online_environment ?x = ?p" "actual_path online_environment ?x = ?p"
    by (simp_all add: online_as_offline sample_coincident_paths)
  have seeded: "files seeded_world (baseline_path online_environment ?x) = Some [1, 2, 3]"
    by (simp add: paths seeded_world_def)
  have found: "files ?w1 (baseline_path online_environment ?x) = Some [137, 80, 78, 71]"
    by (simp add: paths files_writeFile)
  have run: "expectPageToMatchVisuallyAI online_environment sample_config sample_page ?x
        sample_options seeded_world =
      compare_with_baseline online_environment sample_config ?x
        (base64 online_environment [137, 80, 78, 71]) ?w1"
    using expect_after_capture [of online_environment sample_page ?x sample_options
        "[137, 80, 78, 71]" sample_config seeded_world] found
    by (simp add: online_as_offline(4,5) sample_page_always paths sample_run_facts(6))
  have "files (snd (expectPageToMatchVisuallyAI online_environment sample_config sample_page ?x
        sample_options seeded_world)) (baseline_path online_environment ?x) = Some [137, 80, 78, 71]"
    unfolding run compare_keeps_files by (rule found)
  with seeded sample_run_facts(6) show ?thesis by blast
qed

text \<open>
  Claim C9, amended. When a baseline file exists, \<open>updateBaselines\<close> is not set, and the
  baseline path and the actual path name two different files, the invocation leaves the
  baseline file as it was, whatever its outcome: the only path it may write is the actual
  path.
\<close>

theorem existing_baseline_not_written:
  assumes exists: "files w (baseline_path env baselineName) = Some b"
      and noupdate: "updateBaselines options \<noteq> Some True"
      and distinct: "baseline_path env baselineName \<noteq> actual_path env baselineName"
  shows "files (snd (expectPageToMatchVisuallyAI env cfg pg baselineName options w))
           (baseline_path env baselineName) = Some b
       \<and> (written (snd (expectPageToMatchVisuallyAI env cfg pg baselineName options w)) = written w
          \<or> written (snd (expectPageToMatchVisuallyAI env cfg pg baselineName options w))
               = written w @ [actual_path env baselineName])"
proof (cases rule: expect_cases [of env cfg pg baselineName options w])
  case (1 e)
  then show ?thesis using exists by simp
next
  case (2 img)
  have "expectPageToMatchVisuallyAI env cfg pg baselineName options w =
          compare_with_baseline env cfg baselineName (base64 env img)
            (writeFile (actual_path env baselineName) img w)"
    using expect_after_capture [of env pg baselineName options img cfg w] 2 exists noupdate distinct
    by (simp add: files_writeFile)
  then show ?thesis using exists distinct
    by (simp add: compare_keeps_files files_writeFile written_writeFile)
qed

theorem existing_baseline_not_written_witness:
  "files seeded_world (baseline_path offline_environment (js ''home'')) = Some [1, 2, 3]
   \<and> files (snd (expectPageToMatchVisuallyAI online_environment sample_config sample_page
        (js ''home'') sample_options seeded_world)) (js ''/w/tests/visual-baselines/home.png'')
      = Some [1, 2, 3]"
proof -
  have same: "baseline_path online_environment = baseline_path offline_environment"
    "actual_path online_environment = actual_path offline_environment"
    by (simp_all add: fun_eq_iff baseline_path_def actual_path_def online_environment_def)
  have exists: "files seeded_world (baseline_path online_environment (js ''home'')) = Some [1, 2, 3]"
    by (simp add: same sample_run_facts seeded_world_def)
  have distinct: "baseline_path online_environment (js ''home'')
      \<noteq> actual_path online_environment (js ''home'')"
    by (simp add: same sample_run_facts sample_paths_distinct)
  show ?thesis
    using existing_baseline_not_written [OF exists sample_run_facts(6) distinct, of sample_config sample_page]
      exists
    by (simp add: same sample_run_facts)
qed

text \<open>
  Claim C4. In the comparison branch (directories made, screenshot taken, baseline
  present, no update requested), when the backend call fails with the message \<open>err\<close>, the
  orchestrator returns a verdict, not an error: \<open>passed = false\<close>, and the reason ends
  with \<open>err\<close>. Exactly one request has been posted. The gateway itself answers the
  failure with \<open>{text: "", success: false, error: err}\<close>.
\<close>

theorem gateway_failure_becomes_verdict:
  assumes dirs: "ensureDir env (baselineFolder env) = Inr ()" "ensureDir env (actualFolder env) = Inr ()"
      and shot: "pg (capture_options env baselineName options) = Some img"
      and exists: "files w (baseline_path env baselineName) = Some b"
      and noupdate: "updateBaselines options \<noteq> Some True"
      and fails: "\<forall>body. post env (ollamaBaseUrl cfg @ js ''/generate'') body = Inl err"
  shows "fst (expectPageToMatchVisuallyAI env cfg pg baselineName options w) =
           Inr \<lparr>passed = False,
                reason = js ''LLM service error during comparison for '' @ baselineName @ js '': '' @ err,
                baselinePath = baseline_path env baselineName,
                actualPath = actual_path env baselineName\<rparr>
       \<and> length (posts (snd (expectPageToMatchVisuallyAI env cfg pg baselineName options w)))
           = length (posts w) + 1
       \<and> fst (generateMultimodalResponse env (llmService cfg) request w) =
           \<lparr>response_text = [], success = False, error = Some err\<rparr>"
proof -
  let ?w1 = "writeFile (actual_path env baselineName) img w"
  obtain b' where b': "files ?w1 (baseline_path env baselineName) = Some b'"
    using exists by (cases "baseline_path env baselineName = actual_path env baselineName")
      (simp_all add: files_writeFile)
  have run: "expectPageToMatchVisuallyAI env cfg pg baselineName options w =
          compare_with_baseline env cfg baselineName (base64 env img) ?w1"
    using expect_after_capture [of env pg baselineName options img cfg w] dirs shot noupdate b'
    by simp
  have gw: "fst (generateMultimodalResponse env (llmService cfg) request w) =
           \<lparr>response_text = [], success = False, error = Some err\<rparr>"
    using fails by (simp add: gateway_response llmService_def new_LocalLLMService_def)
  show ?thesis
    using compare_when_gateway_fails [OF b' fails, of "base64 env img"]
      posts_compare [OF b', of cfg "base64 env img"] gw
    by (simp add: run posts_writeFile)
qed

theorem gateway_failure_becomes_verdict_witness:
  "(\<forall>body. post offline_environment (ollamaBaseUrl sample_config @ js ''/generate'') body
       = Inl (js ''connect ECONNREFUSED 127.0.0.1:11434''))
   \<and> fst (expectPageToMatchVisuallyAI offline_environment sample_config sample_page (js ''home'')
        sample_options seeded_world) =
      Inr \<lparr>passed = False,
           reason = js ''LLM service error during comparison for '' @ js ''home'' @ js '': ''
             @ js ''connect ECONNREFUSED 127.0.0.1:11434'',
           baselinePath = js ''/w/tests/visual-baselines/home.png'',
           actualPath = js ''/w/test-results/visual-actuals/home.png''\<rparr>
   \<and> length (posts (snd (expectPageToMatchVisuallyAI offline_environment sample_config sample_page
        (js ''home'') sample_options seeded_world))) = 1"
proof -
  have fails: "\<forall>body. post offline_environment (ollamaBaseUrl sample_config @ js ''/generate'') body
       = Inl (js ''connect ECONNREFUSED 127.0.0.1:11434'')"
    by (simp add: offline_environment_def)
  have exists: "files seeded_world (baseline_path offline_environment (js ''home'')) = Some [1, 2, 3]"
    by (simp add: sample_run_facts seeded_world_def)
  show ?thesis
    using gateway_failure_becomes_verdict [where env = offline_environment and pg = sample_page
        and baselineName = "js ''home''" and options = sample_options and img = "[137, 80, 78, 71]"
        and w = seeded_world and b = "[1, 2, 3]" and cfg = sample_config
        and err = "js ''connect ECONNREFUSED 127.0.0.1:11434''"]
      exists fails
    by (simp add: sample_run_facts seeded_world_def)
qed

text \<open>
  Claim C10. The temperature in the body posted by
  \<open>LocalLLMService.generateMultimodalResponse\<close> is never zero: a requested temperature of
  \<open>0\<close> (and \<open>-0\<close>, \<open>NaN\<close>, or none at all) is replaced by \<open>0.2\<close>. The body posted is
  the one built by \<open>multimodal_payload\<close>.
\<close>

theorem temperature_zero_is_replaced:
  "payload_temperature (multimodal_payload svc request) \<noteq> Finite 0
   \<and> payload_temperature (multimodal_payload svc request) \<noteq> NegZero
   \<and> payload_temperature (multimodal_payload svc (request\<lparr>temperature := Some (Finite 0)\<rparr>))
       = Finite (2 / 10)
   \<and> posts (snd (generateMultimodalResponse env svc request w))
       = posts w @ [(baseUrl svc @ js ''/generate'', multimodal_payload svc request)]"
proof -
  have t: "truthy_number (payload_temperature (multimodal_payload svc request))"
    unfolding payload_temperature_multimodal
    by (rule or_number_truthy) (simp add: truthy_number_def)
  have z: "payload_temperature (multimodal_payload svc (request\<lparr>temperature := Some (Finite 0)\<rparr>))
      = Finite (2 / 10)"
    unfolding payload_temperature_multimodal
    by (simp add: or_number_def truthy_number_def)
  from t z show ?thesis
    by (simp add: truthy_number_def posts_generateMultimodalResponse)
qed

theorem temperature_zero_is_replaced_witness:
  "payload_temperature
     (multimodal_payload (llmService sample_config)
        ((comparison_request sample_config [] [])\<lparr>temperature := Some (Finite 0)\<rparr>))
   = Finite (2 / 10)"
  using temperature_zero_is_replaced
    [of "llmService sample_config" "comparison_request sample_config [] []" offline_environment empty_world]
  by simp

text \<open>
  Claim C3, at the configuration \<open>AI_SERVICE_MODE=google\<close> with an API key: the factory
  \<open>getLLMService\<close> selects the cloud backend, while the service of the comparison pipeline
  is the on-device one and its request goes to the Ollama endpoint.
\<close>

theorem pipeline_backend_ignores_service_mode:
  "fst (getLLMService google_config None)
      = Google \<lparr>google_key = js ''key'', google_defaultModel = js ''gemini-pro''\<rparr>
   \<and> llmService google_config
      = \<lparr>baseUrl = js ''http://localhost:11434/api'', defaultModel = js ''llama3:latest''\<rparr>
   \<and> map fst (posts (snd (expectPageToMatchVisuallyAI online_environment google_config sample_page
        (js ''home'') sample_options seeded_world)))
      = [js ''http://localhost:11434/api'' @ js ''/generate'']"
proof -
  have same: "baseline_path online_environment = baseline_path offline_environment"
    "actual_path online_environment = actual_path offline_environment"
    "capture_options online_environment = capture_options offline_environment"
    "ensureDir online_environment (baselineFolder online_environment) = Inr ()"
    "ensureDir online_environment (actualFolder online_environment) = Inr ()"
    by (simp_all add: fun_eq_iff baseline_path_def actual_path_def capture_options_def
          online_environment_def offline_environment_def ensureDir_def)
  let ?w1 = "writeFile (js ''/w/test-results/visual-actuals/home.png'') [137, 80, 78, 71] seeded_world"
  have exists: "files ?w1 (baseline_path online_environment (js ''home'')) = Some [1, 2, 3]"
    using sample_paths_distinct
    by (simp add: same sample_run_facts seeded_world_def files_writeFile)
  have run: "expectPageToMatchVisuallyAI online_environment google_config sample_page (js ''home'')
          sample_options seeded_world =
        compare_with_baseline online_environment google_config (js ''home'')
          (base64 online_environment [137, 80, 78, 71]) ?w1"
    using expect_after_capture [of online_environment sample_page "js ''home''" sample_options
        "[137, 80, 78, 71]" google_config seeded_world] exists
    by (simp add: same sample_run_facts)
  have factory: "fst (getLLMService google_config None)
      = Google \<lparr>google_key = js ''key'', google_defaultModel = js ''gemini-pro''\<rparr>"
    by (simp add: getLLMService_def google_config_def sample_config_def new_GoogleLLMService_def
          or_string_def js_def Let_def)
  have service: "llmService google_config
      = \<lparr>baseUrl = js ''http://localhost:11434/api'', defaultModel = js ''llama3:latest''\<rparr>"
    by (simp add: llmService_def new_LocalLLMService_def google_config_def sample_config_def)
  have "posts (snd (compare_with_baseline online_environment google_config (js ''home'')
          (base64 online_environment [137, 80, 78, 71]) ?w1)) =
        posts ?w1 @ [(ollamaBaseUrl google_config @ js ''/generate'',
           multimodal_payload (llmService google_config)
             (comparison_request google_config (base64 online_environment [1, 2, 3])
                (base64 online_environment [137, 80, 78, 71])))]"
    by (rule posts_compare [OF exists])
  moreover have "posts ?w1 = []"
    by (simp add: posts_writeFile seeded_world_def)
  moreover have "ollamaBaseUrl google_config = js ''http://localhost:11434/api''"
    by (simp add: google_config_def sample_config_def)
  ultimately have "map fst (posts (snd (expectPageToMatchVisuallyAI online_environment google_config
        sample_page (js ''home'') sample_options seeded_world)))
      = [js ''http://localhost:11434/api'' @ js ''/generate'']"
    by (simp add: run)
  with factory service show ?thesis by blast
qed

section \<open>Claims about the response interpreter\<close>

text \<open>
  Claim C2. For every input string the interpreter returns a verdict: the function is the
  \<open>try\<close> block followed by a \<open>catch\<close> that turns whatever was thrown into a verdict and
  performs nothing that can throw on a string. Every failure (no braces, a text
  that \<open>JSON.parse\<close> rejects, a parsed value without a boolean \<open>passed\<close> and a string
  \<open>reason\<close>, and in general anything thrown inside \<open>try\<close>) gives \<open>passed = false\<close> with
  a reason that is not empty. The verdict is never a silent pass: \<open>passed = true\<close> is
  returned only when the cleaned text parses to an object whose \<open>passed\<close> is \<open>true\<close> and
  whose \<open>reason\<close> is the string returned.
\<close>

theorem interpreter_failure_gives_failing_verdict:
  "((\<exists>e. clean_response s = Inl e)
      \<or> (\<exists>t e. clean_response s = Inr t \<and> JSON_parse t = Inl e)
      \<or> (\<exists>t v. clean_response s = Inr t \<and> JSON_parse t = Inr v \<and> \<not> has_verdict_shape v)
    \<longrightarrow> \<not> passed (interpretAIJsonResponse eng s) \<and> reason (interpretAIJsonResponse eng s) \<noteq> [])
   \<and> (\<forall>e. interpret_try s = Inl e \<longrightarrow>
         interpretAIJsonResponse eng s = interpret_catch eng s e
         \<and> \<not> passed (interpretAIJsonResponse eng s) \<and> reason (interpretAIJsonResponse eng s) \<noteq> [])
   \<and> (passed (interpretAIJsonResponse eng s) \<longrightarrow>
        (\<exists>t ms r. clean_response s = Inr t \<and> JSON_parse t = Inr (JObject ms)
           \<and> map_of (rev ms) (js ''passed'') = Some (JBool True)
           \<and> map_of (rev ms) (js ''reason'') = Some (JString r)
           \<and> reason (interpretAIJsonResponse eng s) = r))"
proof -
  let ?I = "interpretAIJsonResponse eng s"
  have shape: "\<not> passed ?I \<and> reason ?I \<noteq> []"
    if "clean_response s = Inr t" "JSON_parse t = Inr v" "\<not> has_verdict_shape v" for t v
    using interpret_wrong_shape [OF that, of eng] by (simp add: js_def)
  have thrown: "?I = interpret_catch eng s e \<and> \<not> passed ?I \<and> reason ?I \<noteq> []"
    if "interpret_try s = Inl e" for e
    using interpret_thrown [OF that, of eng] by blast
  show ?thesis
    using shape thrown interpret_passed [of eng s] interpret_try_no_braces
      interpret_try_syntax_error by blast
qed

theorem interpreter_failure_gives_failing_verdict_witness:
  "(\<exists>t v. clean_response (js ''{\"ok\": true}'') = Inr t \<and> JSON_parse t = Inr v
      \<and> \<not> has_verdict_shape v)
   \<and> \<not> passed (interpretAIJsonResponse plain_engine (js ''{\"ok\": true}''))
   \<and> reason (interpretAIJsonResponse plain_engine (js ''{\"ok\": true}'')) \<noteq> []"
proof -
  have ex: "\<exists>t v. clean_response (js ''{\"ok\": true}'') = Inr t \<and> JSON_parse t = Inr v
      \<and> \<not> has_verdict_shape v"
    using clean_ok parse_ok shape_ok by blast
  then show ?thesis
    using interpreter_failure_gives_failing_verdict [of "js ''{\"ok\": true}''" plain_engine]
    by blast
qed

text \<open>
  Claim C5, as stated, fails: a reason that contains \<open>```json\<close> loses it to the fence
  removal, and prose with a brace before the object moves the slice, so that the reply
  no longer parses.
\<close>

theorem round_trip_counterexample:
  "interpretAIJsonResponse plain_engine (verdict_text True (js ''```json''))
     \<noteq> \<lparr>passed = True, reason = js ''```json''\<rparr>
   \<and> interpretAIJsonResponse plain_engine (js ''{json}: '' @ verdict_text True (js ''ok''))
     \<noteq> \<lparr>passed = True, reason = js ''ok''\<rparr>"
proof -
  have "\<lparr>passed = True, reason = []\<rparr> \<noteq> \<lparr>passed = True, reason = js ''```json''\<rparr>"
    by (simp add: js_def)
  moreover have "interpret_catch plain_engine s e \<noteq> \<lparr>passed = True, reason = js ''ok''\<rparr>" for s e
    by (simp add: interpret_catch_def)
  ultimately show ?thesis
    unfolding interpret_fenced_reason interpret_braces_in_prose by blast
qed

text \<open>
  Claim C5, amended. Let \<open>b\<close> be the text between the quotes of a well-formed JSON string
  that denotes \<open>x\<close>, and let \<open>b\<close> not contain \<open>```json\<close>. Then for any text before the
  object without \<open>{\<close> and any text after it without \<open>}\<close> (Markdown fences and prose
  alike), the interpreter returns exactly \<open>{passed, reason: x}\<close> for
  \<open>{"passed": true, "reason": "b"}\<close> and for \<open>{"passed": false, "reason": "b"}\<close>.
\<close>

theorem documented_reply_round_trip:
  assumes "parse_string_body (b @ [34]) = Some (x, [])"
      and "\<not> sublist fence_open b"
      and "123 \<notin> set lead" and "125 \<notin> set trail"
  shows "interpretAIJsonResponse eng (lead @ verdict_text t b @ trail) = \<lparr>passed = t, reason = x\<rparr>"
  using assms by (rule interpret_documented_reply)

theorem documented_reply_round_trip_witness:
  "parse_string_body ((js ''line 1'' @ [92, 110] @ js ''line 2'') @ [34])
     = Some (js ''line 1'' @ [10] @ js ''line 2'', [])
   \<and> \<not> sublist fence_open (js ''line 1'' @ [92, 110] @ js ''line 2'')
   \<and> interpretAIJsonResponse plain_engine
        ((js ''Here is the verdict: ```json'' @ [10])
           @ verdict_text False (js ''line 1'' @ [92, 110] @ js ''line 2'')
           @ ([10] @ js ''``` Done.''))
      = \<lparr>passed = False, reason = js ''line 1'' @ [10] @ js ''line 2''\<rparr>"
proof -
  have body: "parse_string_body ((js ''line 1'' @ [92, 110] @ js ''line 2'') @ [34])
     = Some (js ''line 1'' @ [10] @ js ''line 2'', [])"
    by (simp add: js_def unescape_def)
  have no_fence: "\<not> sublist fence_open (js ''line 1'' @ [92, 110] @ js ''line 2'')"
    by (simp add: js_def fence_open_eq sublist_Cons_right)
  have lead: "123 \<notin> set (js ''Here is the verdict: ```json'' @ [10])"
    by (simp add: js_def)
  have trail: "125 \<notin> set ([10] @ js ''``` Done.'')"
    by (simp add: js_def)
  from documented_reply_round_trip [OF body no_fence lead trail, of plain_engine False]
    body no_fence show ?thesis by blast
qed



text \<open>
  Claim C7, as stated, fails on the wording: the reason of the verdict for an input
  without braces does not contain \<open>no JSON\<close>.
\<close>

theorem no_json_wording_counterexample:
  "\<not> sublist (js ''no JSON'') (reason (interpretAIJsonResponse plain_engine (js ''hello'')))"
proof -
  have "123 \<notin> set (strip_fences (js ''hello'')) \<or> 125 \<notin> set (strip_fences (js ''hello''))"
    using hello_no_braces by simp
  from interpret_no_braces [OF this, of plain_engine] show ?thesis
    by (simp add: js_def sublist_Cons_right)
qed

text \<open>
  Claim C7, amended. For every input whose text after fence stripping has no \<open>{\<close> or no
  \<open>}\<close>, the interpreter returns \<open>passed = false\<close> with the reason
  \<open>AI response could not be parsed as valid JSON: Could not find valid JSON object
  delimiters {} in response. (Original: \<close> followed by the first 100 characters of the
  input and \<open>...)\<close>.
\<close>

theorem missing_braces_gives_failing_verdict:
  assumes "123 \<notin> set (strip_fences s) \<or> 125 \<notin> set (strip_fences s)"
  shows "interpretAIJsonResponse eng s =
           \<lparr>passed = False,
            reason = js ''AI response could not be parsed as valid JSON: ''
              @ js ''Could not find valid JSON object delimiters {} in response.''
              @ js '' (Original: '' @ take 100 s @ js ''...)''\<rparr>"
  using assms by (rule interpret_no_braces)

theorem missing_braces_gives_failing_verdict_witness:
  "123 \<notin> set (strip_fences (js ''hello''))
   \<and> interpretAIJsonResponse plain_engine (js ''hello'') =
       \<lparr>passed = False,
        reason = js ''AI response could not be parsed as valid JSON: Could not find valid JSON object delimiters {} in response. (Original: hello...)''\<rparr>"
proof -
  have h: "123 \<notin> set (strip_fences (js ''hello'')) \<or> 125 \<notin> set (strip_fences (js ''hello''))"
    using hello_no_braces by simp
  from missing_braces_gives_failing_verdict [OF h, of plain_engine] hello_no_braces
  show ?thesis by (simp add: js_def)
qed

text \<open>
  Claim C8, as stated, fails for valid JSON that is not the object the interpreter slices
  out. The input \<open>[1]\<close> is valid JSON without the two fields, and the reason is the one
  for missing braces, which says nothing about fields; the input
  \<open>[{"passed": true, "reason": "ok"}]\<close> is valid JSON, an array without the two fields,
  and the verdict is \<open>passed = true\<close>.
\<close>

theorem valid_json_wrong_shape_counterexample:
  "JSON_parse (js ''[1]'') = Inr (JArray [JNumber (js ''1'')])
   \<and> \<not> has_verdict_shape (JArray [JNumber (js ''1'')])
   \<and> interpretAIJsonResponse plain_engine (js ''[1]'') =
       \<lparr>passed = False,
        reason = js ''AI response could not be parsed as valid JSON: Could not find valid JSON object delimiters {} in response. (Original: [1]...)''\<rparr>
   \<and> JSON_parse (js ''[{\"passed\": true, \"reason\": \"ok\"}]'')
       = Inr (JArray [JObject [(js ''passed'', JBool True), (js ''reason'', JString (js ''ok''))]])
   \<and> \<not> has_verdict_shape
         (JArray [JObject [(js ''passed'', JBool True), (js ''reason'', JString (js ''ok''))]])
   \<and> interpretAIJsonResponse plain_engine (js ''[{\"passed\": true, \"reason\": \"ok\"}]'')
       = \<lparr>passed = True, reason = js ''ok''\<rparr>"
  using parse_array_of_one interpret_array_of_one [of plain_engine] parse_array_of_verdict
    interpret_array_of_verdict [of plain_engine] array_has_no_verdict_shape
  by blast

text \<open>
  Claim C8, amended. Whenever the text that the interpreter hands to \<open>JSON.parse\<close> (the
  slice from the first \<open>{\<close> to the last \<open>}\<close> of the input after fence stripping, flattened
  and repaired) parses as JSON and the parsed value lacks a boolean \<open>passed\<close> or a string
  \<open>reason\<close>, the interpreter returns \<open>passed = false\<close> with the reason
  \<open>AI response was valid JSON but lacked expected fields: \<close> followed by the first 200
  characters of the input and \<open>...\<close>.
\<close>

theorem wrong_shape_gives_failing_verdict:
  assumes "clean_response s = Inr t" and "JSON_parse t = Inr v" and "\<not> has_verdict_shape v"
  shows "interpretAIJsonResponse eng s =
           \<lparr>passed = False,
            reason = js ''AI response was valid JSON but lacked expected fields: ''
              @ take 200 s @ js ''...''\<rparr>"
  using assms by (rule interpret_wrong_shape)

theorem wrong_shape_gives_failing_verdict_witness:
  "clean_response (js ''{\"ok\": true}'') = Inr (js ''{\"ok\": true}'')
   \<and> JSON_parse (js ''{\"ok\": true}'') = Inr (JObject [(js ''ok'', JBool True)])
   \<and> \<not> has_verdict_shape (JObject [(js ''ok'', JBool True)])
   \<and> interpretAIJsonResponse plain_engine (js ''{\"ok\": true}'') =
       \<lparr>passed = False,
        reason = js ''AI response was valid JSON but lacked expected fields: {\"ok\": true}...''\<rparr>"
proof -
  from wrong_shape_gives_failing_verdict [OF clean_ok parse_ok shape_ok, of plain_engine]
  have "interpretAIJsonResponse plain_engine (js ''{\"ok\": true}'') =
       \<lparr>passed = False,
        reason = js ''AI response was valid JSON but lacked expected fields: {\"ok\": true}...''\<rparr>"
    by (simp add: js_def)
  with clean_ok parse_ok shape_ok show ?thesis by blast
qed

end
